theory Spec2Isabelle
  imports Main "HOL-Library.Sublist"
begin

section \<open>JavaScript strings\<close>

text \<open>
  A JavaScript string is a sequence of UTF-16 code units. Several characters the
  library looks for (U+2028, U+2029, U+00A0, U+FEFF) do not fit a byte, so a code unit
  is a natural number below 65536 and a string is a list of them.
  \<open>str\<close> turns an ASCII literal into such a string.
\<close>

type_synonym jsstring = "nat list"

definition str :: "string \<Rightarrow> jsstring" where
  "str s = map of_char s"

text \<open>
  Code units that the library names: 10 is LF, 13 is CR, 8232 is U+2028, 8233 is U+2029,
  92 is the backslash; 9, 11, 12, 32, 160 and 65279 are tab, vertical tab, form feed,
  space, no-break space and U+FEFF.
\<close>

text \<open>The character class \<^verbatim>\<open>[\n\r\u2028\u2029]\<close> of \<^verbatim>\<open>LINE_TERMINATORS\<close>.\<close>

definition is_line_terminator :: "nat \<Rightarrow> bool" where
  "is_line_terminator c = (c = 10 \<or> c = 13 \<or> c = 8232 \<or> c = 8233)"

text \<open>The character class \<^verbatim>\<open>[\t\u000B\u000C \u00A0\uFEFF]\<close> of \<^verbatim>\<open>WS_RUN\<close>.\<close>

definition is_whitespace :: "nat \<Rightarrow> bool" where
  "is_whitespace c = (c = 9 \<or> c = 11 \<or> c = 12 \<or> c = 32 \<or> c = 160 \<or> c = 65279)"

section \<open>The regular expressions of the trimmer\<close>

text \<open>
  \<^verbatim>\<open>LINE_TERMINATORS.exec(s)\<close> is used as a truth value: the pattern
  \<^verbatim>\<open>/[\n\r\u2028\u2029]+/\<close> is not anchored, so it matches as soon as \<open>s\<close> has a line
  terminator anywhere.
\<close>

definition LINE_TERMINATORS_exec :: "jsstring \<Rightarrow> bool" where
  "LINE_TERMINATORS_exec s = list_ex is_line_terminator s"

text \<open>
  \<^verbatim>\<open>s.split(LINE_TERMINATORS)\<close>: the text up to the next line terminator is a fragment;
  the greedy \<^verbatim>\<open>+\<close> then consumes the whole run of terminators as one separator.
  A string without terminators is its own single fragment.
\<close>

function split_LINE_TERMINATORS :: "jsstring \<Rightarrow> jsstring list" where
  "split_LINE_TERMINATORS s =
     (let frag = takeWhile (\<lambda>c. \<not> is_line_terminator c) s;
          rest = dropWhile (\<lambda>c. \<not> is_line_terminator c) s
      in if rest = [] then [frag]
         else frag # split_LINE_TERMINATORS (dropWhile is_line_terminator rest))"
  by pat_completeness auto
termination
proof (relation "measure length")
  show "wf (measure length)" by simp
next
  fix s :: jsstring and frag rest
  assume rest: "rest = dropWhile (\<lambda>c. \<not> is_line_terminator c) s" and ne: "rest \<noteq> []"
  from ne have "is_line_terminator (hd rest)"
    unfolding rest using hd_dropWhile by blast
  with ne have "length (dropWhile is_line_terminator rest) < length rest"
    by (cases rest) (auto intro: le_imp_less_Suc length_dropWhile_le)
  also have "length rest \<le> length s"
    unfolding rest by (rule length_dropWhile_le)
  finally show "(dropWhile is_line_terminator rest, s) \<in> measure length" by simp
qed

declare split_LINE_TERMINATORS.simps [simp del]

text \<open>\<^verbatim>\<open>WS_RUN.exec(line)[0]\<close>: the pattern \<^verbatim>\<open>/^[\t\u000B\u000C \u00A0\uFEFF]*/\<close> always matches.\<close>

definition WS_RUN_exec :: "jsstring \<Rightarrow> jsstring" where
  "WS_RUN_exec line = takeWhile is_whitespace line"

text \<open>
  The pattern \<^verbatim>\<open>new RegExp(`(${LINE_TERMINATORS.source})${commonPrefix}`, 'g')\<close>, or the
  pattern \<^verbatim>\<open>/(?!)/\<close> that never matches.
\<close>

datatype prefix_pattern = PrefixPattern jsstring | NeverMatches

text \<open>
  A match of \<^verbatim>\<open>([\n\r\u2028\u2029]+)P\<close> at the start of \<open>s\<close>: the group first takes the
  longest run of terminators and gives characters back one at a time (never all of
  them) until \<open>P\<close> follows. The result is the length of the group.
\<close>

fun try_runs :: "nat \<Rightarrow> jsstring \<Rightarrow> jsstring \<Rightarrow> nat option" where
  "try_runs 0 P s = None"
| "try_runs (Suc k) P s =
     (if prefix P (drop (Suc k) s) then Some (Suc k) else try_runs k P s)"

definition match_prefixPattern :: "jsstring \<Rightarrow> jsstring \<Rightarrow> nat option" where
  "match_prefixPattern P s = try_runs (length (takeWhile is_line_terminator s)) P s"

text \<open>
  \<^verbatim>\<open>chunk.replace(prefixPattern, '$1')\<close> with the global flag: every match, found from left
  to right, is replaced by its group, and the search resumes after the match.
\<close>

function replace_prefixPattern :: "jsstring \<Rightarrow> jsstring \<Rightarrow> jsstring" where
  "replace_prefixPattern P [] = []"
| "replace_prefixPattern P (c # cs) =
     (case match_prefixPattern P (c # cs) of
        Some k \<Rightarrow> take k (c # cs) @ replace_prefixPattern P (drop (k + length P) (c # cs))
      | None \<Rightarrow> c # replace_prefixPattern P cs)"
  by pat_completeness auto
termination
proof (relation "measure (\<lambda>(P, s). length s)")
  show "wf (measure (\<lambda>(P, s). length s))" by simp
next
  fix P :: jsstring and c cs k
  assume m: "match_prefixPattern P (c # cs) = Some k"
  have "try_runs n P s = Some k \<Longrightarrow> 0 < k" for n s
    by (induction n) (auto split: if_splits)
  with m have "0 < k"
    unfolding match_prefixPattern_def by blast
  then show "((P, drop (k + length P) (c # cs)), (P, c # cs)) \<in> measure (\<lambda>(P, s). length s)"
    by simp
next
  fix P :: jsstring and c cs
  show "((P, cs), (P, c # cs)) \<in> measure (\<lambda>(P, s). length s)" by simp
qed

fun replace_pattern :: "prefix_pattern \<Rightarrow> jsstring \<Rightarrow> jsstring" where
  "replace_pattern (PrefixPattern P) chunk = replace_prefixPattern P chunk"
| "replace_pattern NeverMatches chunk = chunk"

text \<open>
  \<^verbatim>\<open>s.replace(LINE_TERMINATOR_AT_START, '')\<close> with the pattern
  \<^verbatim>\<open>/^(?:\r\n?|[\n\u2028\u2029])/\<close>: the alternatives are tried in order at position 0.
\<close>

fun replace_LINE_TERMINATOR_AT_START :: "jsstring \<Rightarrow> jsstring" where
  "replace_LINE_TERMINATOR_AT_START [] = []"
| "replace_LINE_TERMINATOR_AT_START (c # cs) =
     (if c = 13 then (case cs of [] \<Rightarrow> [] | d # ds \<Rightarrow> if d = 10 then ds else cs)
      else if c = 10 \<or> c = 8232 \<or> c = 8233 then cs
      else c # cs)"

text \<open>
  \<^verbatim>\<open>s.replace(LINE_TERMINATOR_AT_END, '')\<close> with the pattern
  \<^verbatim>\<open>/(?:\r\n?|[\n\r\u2028\u2029])$/\<close>: without the global flag the first position where
  the pattern matches is replaced. \<open>match_LINE_TERMINATOR_AT_END\<close> says whether the
  pattern matches at the start of its argument, which must then reach the end of the
  string.
\<close>

fun match_LINE_TERMINATOR_AT_END :: "jsstring \<Rightarrow> bool" where
  "match_LINE_TERMINATOR_AT_END [c] = is_line_terminator c"
| "match_LINE_TERMINATOR_AT_END [c, d] = (c = 13 \<and> d = 10)"
| "match_LINE_TERMINATOR_AT_END _ = False"

fun replace_LINE_TERMINATOR_AT_END :: "jsstring \<Rightarrow> jsstring" where
  "replace_LINE_TERMINATOR_AT_END [] = []"
| "replace_LINE_TERMINATOR_AT_END (c # cs) =
     (if match_LINE_TERMINATOR_AT_END (c # cs) then []
      else c # replace_LINE_TERMINATOR_AT_END cs)"

section \<open>The common prefix\<close>

text \<open>\<^verbatim>\<open>commonPrefixOf(a, b)\<close>: the loop stops at the first index where the strings differ.\<close>

fun commonPrefixOf :: "jsstring \<Rightarrow> jsstring \<Rightarrow> jsstring" where
  "commonPrefixOf (x # xs) (y # ys) = (if x \<noteq> y then [] else x # commonPrefixOf xs ys)"
| "commonPrefixOf _ _ = []"

text \<open>
  The first argument of a tag handler: an array of strings (the cooked chunks) with a
  \<^verbatim>\<open>raw\<close> property, itself an array of strings. \<open>frozen\<close> and \<open>raw_frozen\<close> are what
  \<^verbatim>\<open>Object.isFrozen\<close> answers for the array and for its \<^verbatim>\<open>raw\<close>. The \<^verbatim>\<open>length\<close> the
  code reads is the length of the cooked array.
\<close>

record template_strings =
  cooked :: "jsstring list"
  raw :: "jsstring list"
  frozen :: bool
  raw_frozen :: bool

text \<open>\<^verbatim>\<open>String(raw[i])\<close>: an index past the end reads \<^verbatim>\<open>undefined\<close>.\<close>

definition raw_at :: "jsstring list \<Rightarrow> nat \<Rightarrow> jsstring" where
  "raw_at rw i = (if i < length rw then rw ! i else str ''undefined'')"

text \<open>
  The inner loop of \<^verbatim>\<open>commonPrefixOfTemplateStrings\<close> over the lines of one chunk, from
  line 1 on. \<open>None\<close> is the initial \<^verbatim>\<open>null\<close>. The \<^verbatim>\<open>break\<close> leaves this loop only.
\<close>

fun scan_lines :: "jsstring option \<Rightarrow> jsstring list \<Rightarrow> jsstring option" where
  "scan_lines commonPrefix [] = commonPrefix"
| "scan_lines commonPrefix (line # lines) =
     (let prefix = WS_RUN_exec line;
          commonPrefix' = (case commonPrefix of None \<Rightarrow> prefix
                           | Some cp \<Rightarrow> commonPrefixOf cp prefix)
      in if commonPrefix' = [] then Some commonPrefix'
         else scan_lines (Some commonPrefix') lines)"

text \<open>The outer loop over the chunks \<^verbatim>\<open>raw[0]\<close> to \<^verbatim>\<open>raw[length - 1]\<close>.\<close>

fun scan_chunks :: "jsstring option \<Rightarrow> jsstring list \<Rightarrow> jsstring option" where
  "scan_chunks commonPrefix [] = commonPrefix"
| "scan_chunks commonPrefix (chunk # chunks) =
     scan_chunks (scan_lines commonPrefix (tl (split_LINE_TERMINATORS chunk))) chunks"

definition commonPrefixOfTemplateStrings :: "template_strings \<Rightarrow> jsstring option" where
  "commonPrefixOfTemplateStrings t =
     (if \<not> LINE_TERMINATORS_exec (raw_at (raw t) 0) then Some []
      else scan_chunks None (map (raw_at (raw t)) [0..<length (cooked t)]))"

section \<open>Escape processing\<close>

definition is_hex_digit :: "nat \<Rightarrow> bool" where
  "is_hex_digit c = ((48 \<le> c \<and> c \<le> 57) \<or> (65 \<le> c \<and> c \<le> 70) \<or> (97 \<le> c \<and> c \<le> 102))"

definition is_octal_digit :: "nat \<Rightarrow> bool" where
  "is_octal_digit c = (48 \<le> c \<and> c \<le> 55)"

definition digit_value :: "nat \<Rightarrow> nat" where
  "digit_value c = (if c \<le> 57 then c - 48 else if c \<le> 70 then c - 55 else c - 87)"

text \<open>
  \<^verbatim>\<open>parseInt(s, radix)\<close> for radix 8 or 16 on a string that starts neither with white
  space nor with a sign nor with \<^verbatim>\<open>0x\<close> (the pattern below only hands over digits):
  the value of the longest prefix of digits, \<open>None\<close> (\<^verbatim>\<open>NaN\<close>) when that prefix is empty.
\<close>

definition parseInt :: "jsstring \<Rightarrow> nat \<Rightarrow> nat option" where
  "parseInt s radix =
     (let digits = takeWhile (if radix = 8 then is_octal_digit else is_hex_digit) s
      in if digits = [] then None
         else Some (foldl (\<lambda>acc d. acc * radix + digit_value d) 0 digits))"

text \<open>\<^verbatim>\<open>String.fromCharCode\<close> reduces its argument modulo \<open>2^16\<close>; \<^verbatim>\<open>NaN\<close> gives code unit 0.\<close>

definition fromCharCode :: "nat option \<Rightarrow> jsstring" where
  "fromCharCode n = (case n of None \<Rightarrow> [0] | Some v \<Rightarrow> [v mod 65536])"

text \<open>
  The pattern \<^verbatim>\<open>ESCAPE_SEQUENCE\<close>,
  \<^verbatim>\<open>/\\(?:[^ux0-7\r]|x[0-9A-Fa-f]{0,2}|u[0-9A-Fa-f]{4}|[0-3][0-7]{0,2}|[4-7][0-7]?|\r\n?)/g\<close>,
  matched at the start of a string: the length of the match. The alternatives are
  tried in order and the quantifiers are greedy.
\<close>

fun match_ESCAPE_SEQUENCE :: "jsstring \<Rightarrow> nat option" where
  "match_ESCAPE_SEQUENCE (b # c # rest) =
     (if b \<noteq> 92 then None
      else if \<not> (c = 117 \<or> c = 120 \<or> is_octal_digit c \<or> c = 13) then Some 2
      else if c = 120 then Some (2 + length (takeWhile is_hex_digit (take 2 rest)))
      else if c = 117 then
        (if length rest \<ge> 4 \<and> list_all is_hex_digit (take 4 rest) then Some 6 else None)
      else if c \<le> 51 \<and> is_octal_digit c then
        Some (2 + length (takeWhile is_octal_digit (take 2 rest)))
      else if is_octal_digit c then
        Some (2 + length (takeWhile is_octal_digit (take 1 rest)))
      else (case rest of d # _ \<Rightarrow> if d = 10 then Some 3 else Some 2 | [] \<Rightarrow> Some 2))"
| "match_ESCAPE_SEQUENCE _ = None"

text \<open>
  \<^verbatim>\<open>SV_TABLE\<close>: a string, or one of the two functions that read a hexadecimal or an
  octal number out of the escape sequence; \<open>None\<close> where the table has no entry.
\<close>

datatype sv_entry = SvString jsstring | SvHex | SvOctal

definition SV_TABLE :: "nat \<Rightarrow> sv_entry option" where
  "SV_TABLE chr =
     (if chr = 98 then Some (SvString [8])
      else if chr = 116 then Some (SvString [9])
      else if chr = 110 then Some (SvString [10])
      else if chr = 118 then Some (SvString [11])
      else if chr = 102 then Some (SvString [12])
      else if chr = 114 then Some (SvString [13])
      else if chr = 10 \<or> chr = 13 \<or> chr = 8232 \<or> chr = 8233 then Some (SvString [])
      else if chr = 120 \<or> chr = 117 then Some SvHex
      else if is_octal_digit chr then Some SvOctal
      else None)"

text \<open>The replacement function that \<^verbatim>\<open>cook\<close> passes to \<^verbatim>\<open>replace\<close>.\<close>

definition escape_replacement :: "jsstring \<Rightarrow> jsstring" where
  "escape_replacement escSeq =
     (case drop 1 escSeq of
        [] \<Rightarrow> []
      | chr # _ \<Rightarrow>
          (case SV_TABLE chr of
             None \<Rightarrow> [chr]
           | Some SvHex \<Rightarrow> fromCharCode (parseInt (drop 2 escSeq) 16)
           | Some SvOctal \<Rightarrow> fromCharCode (parseInt (drop 1 escSeq) 8)
           | Some (SvString repl) \<Rightarrow> repl))"

function cook :: "jsstring \<Rightarrow> jsstring" where
  "cook [] = []"
| "cook (c # cs) =
     (case match_ESCAPE_SEQUENCE (c # cs) of
        Some n \<Rightarrow> escape_replacement (take n (c # cs)) @ cook (drop n (c # cs))
      | None \<Rightarrow> c # cook cs)"
  by pat_completeness auto
termination
proof (relation "measure length")
  show "wf (measure length)" by simp
next
  fix c :: nat and cs n
  assume "match_ESCAPE_SEQUENCE (c # cs) = Some n"
  then have "0 < n"
    by (cases cs) (auto split: if_splits list.splits)
  then show "(drop n (c # cs), c # cs) \<in> measure length" by simp
next
  fix c :: nat and cs
  show "(cs, c # cs) \<in> measure length" by simp
qed

section \<open>JavaScript values and errors\<close>

text \<open>
  The values the tag functions can be handed. An array and a plain object carry their
  identity (two values with the same identity are the same object, seen at two moments)
  and whether they are frozen. An array has its elements and its \<^verbatim>\<open>raw\<close> property
  (\<open>Undefined\<close> when it has none). A plain object has named properties such as
  \<^verbatim>\<open>raw\<close>, \<^verbatim>\<open>length\<close> or \<^verbatim>\<open>message\<close>; an \<^verbatim>\<open>Error\<close> is such an object. These
  are data values: every property is a data property, so reading one runs no code.
  Array holes, indexed properties of plain objects and numbers that are not integers
  are left out. Values whose reads can run code or fail are added for the detectors
  below.
\<close>

datatype jsval =
    Undefined
  | Null
  | Boolean bool
  | Number int
  | String jsstring
  | Array nat bool "jsval list" jsval
  | Object nat bool "(string \<times> jsval) list"

datatype js_error =
    TypeError
  | InvalidStaticStrings
  | WrongDynamicCount jsval nat
  | Thrown jsval
  | NewError jsval

text \<open>
  \<open>TypeError\<close> is raised by the engine (a property read on \<^verbatim>\<open>undefined\<close> or
  \<^verbatim>\<open>null\<close>), \<open>InvalidStaticStrings\<close> is \<^verbatim>\<open>new Error('Invalid static strings')\<close>,
  \<open>WrongDynamicCount length n\<close> is the error about too many or too few dynamic values
  with the two numbers of its message, \<open>Thrown v\<close> is a value thrown by a helper and
  passed on as it is, and \<open>NewError m\<close> is \<^verbatim>\<open>new Error(m)\<close> built from a cached failure.
\<close>

definition then_do :: "'e + 'a \<Rightarrow> ('a \<Rightarrow> 'e + 'b) \<Rightarrow> 'e + 'b" where
  "then_do r f = (case r of Inl e \<Rightarrow> Inl e | Inr v \<Rightarrow> f v)"

fun truthy :: "jsval \<Rightarrow> bool" where
  "truthy Undefined = False"
| "truthy Null = False"
| "truthy (Boolean b) = b"
| "truthy (Number n) = (n \<noteq> 0)"
| "truthy (String s) = (s \<noteq> [])"
| "truthy (Array i fr es r) = True"
| "truthy (Object i fr props) = True"

text \<open>A property read \<^verbatim>\<open>v.name\<close>.\<close>

fun get_prop :: "jsval \<Rightarrow> string \<Rightarrow> js_error + jsval" where
  "get_prop Undefined name = Inl TypeError"
| "get_prop Null name = Inl TypeError"
| "get_prop (Boolean b) name = Inr Undefined"
| "get_prop (Number n) name = Inr Undefined"
| "get_prop (String s) name =
     Inr (if name = ''length'' then Number (int (length s)) else Undefined)"
| "get_prop (Array i fr es r) name =
     Inr (if name = ''length'' then Number (int (length es))
          else if name = ''raw'' then r else Undefined)"
| "get_prop (Object i fr props) name =
     Inr (case map_of props name of Some v \<Rightarrow> v | None \<Rightarrow> Undefined)"

fun isArray :: "jsval \<Rightarrow> bool" where
  "isArray (Array i fr es r) = True"
| "isArray _ = False"

text \<open>\<^verbatim>\<open>Object.isFrozen\<close> answers \<^verbatim>\<open>true\<close> for a value that is not an object.\<close>

fun isFrozen :: "jsval \<Rightarrow> bool" where
  "isFrozen (Array i fr es r) = fr"
| "isFrozen (Object i fr props) = fr"
| "isFrozen _ = True"

fun isString :: "jsval \<Rightarrow> bool" where
  "isString (String s) = True"
| "isString _ = False"

text \<open>\<^verbatim>\<open>a === b\<close>: objects are compared by identity.\<close>

fun strict_equals :: "jsval \<Rightarrow> jsval \<Rightarrow> bool" where
  "strict_equals Undefined Undefined = True"
| "strict_equals Null Null = True"
| "strict_equals (Boolean a) (Boolean b) = (a = b)"
| "strict_equals (Number a) (Number b) = (a = b)"
| "strict_equals (String a) (String b) = (a = b)"
| "strict_equals (Array i fr es r) (Array j fr' es' r') = (i = j)"
| "strict_equals (Object i fr props) (Object j fr' props') = (i = j)"
| "strict_equals _ _ = False"

text \<open>
  \<^verbatim>\<open>every.call(arr, isString)\<close>: throws on \<^verbatim>\<open>undefined\<close> and \<^verbatim>\<open>null\<close>, visits the
  elements of an array and the characters of a string, and has nothing to visit in a
  number, a boolean or an object without indexed properties.
\<close>

fun every_isString :: "jsval \<Rightarrow> js_error + bool" where
  "every_isString Undefined = Inl TypeError"
| "every_isString Null = Inl TypeError"
| "every_isString (Array i fr es r) = Inr (list_all isString es)"
| "every_isString _ = Inr True"

definition isStringArray :: "jsval \<Rightarrow> js_error + bool" where
  "isStringArray arr = (if isArray arr then every_isString arr else Inr False)"

section \<open>The tag-invocation detectors\<close>









section \<open>memoizedTagFunction\<close>

definition requireValidTagInputs :: "jsval \<Rightarrow> jsval list \<Rightarrow> js_error + unit" where
  "requireValidTagInputs staticStrings dynamicValues =
     then_do (get_prop staticStrings ''raw'') (\<lambda>rawArray.
     then_do (get_prop staticStrings ''length'') (\<lambda>len.
     then_do (get_prop rawArray ''length'') (\<lambda>rawLength.
     then_do (if strict_equals len rawLength then isStringArray staticStrings
              else Inr False) (\<lambda>stringsOk.
     then_do (if stringsOk then isStringArray rawArray else Inr False) (\<lambda>rawOk.
       if \<not> rawOk then Inl InvalidStaticStrings
       else if \<not> strict_equals (Number (int (length dynamicValues) + 1)) len
         then Inl (WrongDynamicCount len (length dynamicValues))
       else Inr ())))))"

text \<open>
  An entry of the memo table: \<^verbatim>\<open>{ pass: value }\<close> or \<^verbatim>\<open>{ fail: message }\<close>. The message
  stored is \<^verbatim>\<open>exc.message || 'Failure'\<close>, which is never falsy, so the test
  \<^verbatim>\<open>if (staticState.fail)\<close> tells the two kinds of entry apart.
\<close>

datatype 't static_state = Pass 't | Fail jsval

text \<open>
  The state shared by every tag function that one call of \<^verbatim>\<open>memoizedTagFunction\<close>
  gives rise to: the \<^verbatim>\<open>WeakMap\<close>, keyed by the identity of the array, and two counters
  that record how often each helper has been entered.
\<close>

record 't tag_state =
  memoTable :: "nat \<rightharpoonup> 't static_state"
  staticHelperCalls :: nat
  resultHelperCalls :: nat

fun identity_of :: "jsval \<Rightarrow> nat option" where
  "identity_of (Array i fr es r) = Some i"
| "identity_of (Object i fr props) = Some i"
| "identity_of _ = None"

text \<open>\<^verbatim>\<open>memoTable.get(key)\<close> gives \<^verbatim>\<open>undefined\<close> for a key that is not an object.\<close>

definition memoTable_get :: "'t tag_state \<Rightarrow> jsval \<Rightarrow> 't static_state option" where
  "memoTable_get st key = (case identity_of key of None \<Rightarrow> None | Some i \<Rightarrow> memoTable st i)"

text \<open>\<^verbatim>\<open>memoTable.set(key, value)\<close> throws when the key is not an object.\<close>

definition memoTable_set ::
  "'t tag_state \<Rightarrow> jsval \<Rightarrow> 't static_state \<Rightarrow> js_error + 't tag_state" where
  "memoTable_set st key entry =
     (case identity_of key of
        None \<Rightarrow> Inl TypeError
      | Some i \<Rightarrow> Inr (st\<lparr>memoTable := (memoTable st)(i \<mapsto> entry)\<rparr>))"

text \<open>
  A helper is a function of the values it is handed; \<open>Inl v\<close> means that it threw \<open>v\<close>.
  \<open>staticStateFor\<close> returns what the caller sees together with the new state.
\<close>

definition staticStateFor ::
  "(jsval \<Rightarrow> jsval + 't) \<Rightarrow> jsval \<Rightarrow> 't tag_state \<Rightarrow> (js_error + 't) \<times> 't tag_state" where
  "staticStateFor computeStaticHelper staticStrings st =
     (case get_prop staticStrings ''raw'' of
        Inl e \<Rightarrow> (Inl e, st)
      | Inr rawArray \<Rightarrow>
          (let canMemoize = (isFrozen staticStrings \<and> isFrozen rawArray);
               found = (if canMemoize then memoTable_get st staticStrings else None)
           in case found of
                Some (Pass v) \<Rightarrow> (Inr v, st)
              | Some (Fail m) \<Rightarrow> (Inl (NewError m), st)
              | None \<Rightarrow>
                  (let st1 = st\<lparr>staticHelperCalls := staticHelperCalls st + 1\<rparr>
                   in case computeStaticHelper staticStrings of
                        Inr v \<Rightarrow>
                          (if canMemoize then
                             (case memoTable_set st1 staticStrings (Pass v) of
                                Inl e \<Rightarrow> (Inl e, st1)
                              | Inr st2 \<Rightarrow> (Inr v, st2))
                           else (Inr v, st1))
                      | Inl exc \<Rightarrow>
                          (case get_prop exc ''message'' of
                             Inl e \<Rightarrow> (Inl e, st1)
                           | Inr message \<Rightarrow>
                               (let fail = (if truthy message then message
                                            else String (str ''Failure''));
                                    thrown = (if truthy exc then Thrown exc else NewError fail)
                                in if canMemoize then
                                     (case memoTable_set st1 staticStrings (Fail fail) of
                                        Inl e \<Rightarrow> (Inl e, st1)
                                      | Inr st2 \<Rightarrow> (Inl thrown, st2))
                                   else (Inl thrown, st1))))))"

text \<open>
  What a call of a tag function gives back: another tag function, bound to the options
  it was called with (\<open>Configured options\<close> is the closure \<^verbatim>\<open>usingOptions(options)\<close>),
  or the result of \<^verbatim>\<open>computeResultHelper\<close>.
\<close>

datatype 'r outcome = Configured jsval | Returned 'r

text \<open>
  The closure that \<^verbatim>\<open>usingOptions(options)\<close> returns, applied to its arguments:
  \<^verbatim>\<open>staticStringsOrOptions\<close> is the first of them (\<^verbatim>\<open>undefined\<close> when there is none) and
  \<^verbatim>\<open>dynamicValues\<close> are the others.
\<close>

definition usingOptions ::
  "(jsval \<Rightarrow> jsval + 't) \<Rightarrow> (jsval \<Rightarrow> 't \<Rightarrow> jsval \<Rightarrow> jsval list \<Rightarrow> jsval + 'r) \<Rightarrow>
   jsval \<Rightarrow> jsval list \<Rightarrow> 't tag_state \<Rightarrow> (js_error + 'r outcome) \<times> 't tag_state" where
  "usingOptions computeStaticHelper computeResultHelper options args st =
     (let staticStringsOrOptions = (case args of [] \<Rightarrow> Undefined | a # _ \<Rightarrow> a);
          dynamicValues = tl args
      in if dynamicValues = [] \<and> \<not> isArray staticStringsOrOptions
         then (Inr (Configured staticStringsOrOptions), st)
         else
           (case requireValidTagInputs staticStringsOrOptions dynamicValues of
              Inl e \<Rightarrow> (Inl e, st)
            | Inr _ \<Rightarrow>
                (case staticStateFor computeStaticHelper staticStringsOrOptions st of
                   (Inl e, st1) \<Rightarrow> (Inl e, st1)
                 | (Inr staticState, st1) \<Rightarrow>
                     (let st2 = st1\<lparr>resultHelperCalls := resultHelperCalls st1 + 1\<rparr>
                      in case computeResultHelper options staticState
                                staticStringsOrOptions dynamicValues of
                           Inl exc \<Rightarrow> (Inl (Thrown exc), st2)
                         | Inr r \<Rightarrow> (Inr (Returned r), st2)))))"

text \<open>
  \<^verbatim>\<open>memoizedTagFunction\<close> makes an empty memo table and returns
  \<^verbatim>\<open>usingOptions({})\<close>; \<open>fresh\<close> is the identity of the new options object.
\<close>

definition memoizedTagFunction :: "nat \<Rightarrow> jsval \<times> 't tag_state" where
  "memoizedTagFunction fresh =
     (Object fresh False [],
      \<lparr>memoTable = Map.empty, staticHelperCalls = 0, resultHelperCalls = 0\<rparr>)"

text \<open>A sequence of calls of tag functions that share one state, each with its options.\<close>

fun call_sequence ::
  "(jsval \<Rightarrow> jsval + 't) \<Rightarrow> (jsval \<Rightarrow> 't \<Rightarrow> jsval \<Rightarrow> jsval list \<Rightarrow> jsval + 'r) \<Rightarrow>
   (jsval \<times> jsval list) list \<Rightarrow> 't tag_state \<Rightarrow> (js_error + 'r outcome) list \<times> 't tag_state" where
  "call_sequence cs cr [] st = ([], st)"
| "call_sequence cs cr ((options, args) # calls) st =
     (case usingOptions cs cr options args st of
        (out, st1) \<Rightarrow>
          (case call_sequence cs cr calls st1 of (outs, st2) \<Rightarrow> (out # outs, st2)))"

section \<open>trimCommonWhitespaceFromLines\<close>

record trim_options =
  trimEolAtStart :: bool
  trimEolAtEnd :: bool

text \<open>
  The function returns either the very array it was given or arrays it has built.
  Which of the two is part of the result: \<open>SameObject t\<close> is the reference passed in,
  \<open>NewObject t\<close> a fresh array with a fresh \<^verbatim>\<open>raw\<close>.
\<close>

datatype 'a returned = SameObject 'a | NewObject 'a

text \<open>
  \<^verbatim>\<open>trimmedRaw[0] = trimmedRaw[0].replace(LINE_TERMINATOR_AT_START, '')\<close>: on an empty
  array the read gives \<^verbatim>\<open>undefined\<close> and the method call throws.
\<close>

definition trim_at_start :: "jsstring list \<Rightarrow> js_error + jsstring list" where
  "trim_at_start trimmedRaw =
     (if trimmedRaw = [] then Inl TypeError
      else Inr (trimmedRaw[0 := replace_LINE_TERMINATOR_AT_START (trimmedRaw ! 0)]))"

text \<open>
  \<^verbatim>\<open>trimmedRaw[length - 1] = trimmedRaw[length - 1].replace(LINE_TERMINATOR_AT_END, '')\<close>,
  where \<^verbatim>\<open>length\<close> is that of the cooked array: index \<open>-1\<close> and indices past the end
  read \<^verbatim>\<open>undefined\<close>.
\<close>

definition trim_at_end :: "nat \<Rightarrow> jsstring list \<Rightarrow> js_error + jsstring list" where
  "trim_at_end len trimmedRaw =
     (if len = 0 \<or> len - 1 \<ge> length trimmedRaw then Inl TypeError
      else Inr (trimmedRaw[len - 1 := replace_LINE_TERMINATOR_AT_END (trimmedRaw ! (len - 1))]))"

text \<open>
  The choice of \<^verbatim>\<open>prefixPattern\<close>: \<open>None\<close> is the fast path, on which the function
  returns its argument. An empty string and \<^verbatim>\<open>null\<close> are both falsy.
\<close>

definition choose_prefixPattern :: "jsstring option \<Rightarrow> trim_options \<Rightarrow> prefix_pattern option" where
  "choose_prefixPattern commonPrefix options =
     (let otherwise = (if trimEolAtStart options \<or> trimEolAtEnd options
                       then Some NeverMatches else None)
      in case commonPrefix of
           None \<Rightarrow> otherwise
         | Some p \<Rightarrow> if p \<noteq> [] then Some (PrefixPattern p) else otherwise)"

text \<open>The rest of the function, from \<^verbatim>\<open>const { raw, length } = templateStrings\<close> on.\<close>

definition trim_with_pattern ::
  "prefix_pattern \<Rightarrow> template_strings \<Rightarrow> trim_options \<Rightarrow> js_error + template_strings" where
  "trim_with_pattern prefixPattern templateStrings options =
     (let trimmedRaw = map (replace_pattern prefixPattern) (raw templateStrings)
      in then_do (if trimEolAtStart options then trim_at_start trimmedRaw
                  else Inr trimmedRaw) (\<lambda>trimmedRaw1.
         then_do (if trimEolAtEnd options
                  then trim_at_end (length (cooked templateStrings)) trimmedRaw1
                  else Inr trimmedRaw1) (\<lambda>trimmedRaw2.
           Inr \<lparr>cooked = map cook trimmedRaw2, raw = trimmedRaw2,
                frozen = True, raw_frozen = True\<rparr>)))"

definition trimCommonWhitespaceFromLines ::
  "template_strings \<Rightarrow> trim_options \<Rightarrow> js_error + template_strings returned" where
  "trimCommonWhitespaceFromLines templateStrings options =
     (case choose_prefixPattern (commonPrefixOfTemplateStrings templateStrings) options of
        None \<Rightarrow> Inr (SameObject templateStrings)
      | Some prefixPattern \<Rightarrow>
          then_do (trim_with_pattern prefixPattern templateStrings options)
            (\<lambda>trimmedCooked. Inr (NewObject trimmedCooked)))"

text \<open>The object that a call returned, whichever way.\<close>

definition returned_object :: "'a returned \<Rightarrow> 'a" where
  "returned_object r = (case r of SameObject x \<Rightarrow> x | NewObject x \<Rightarrow> x)"

section \<open>Removing one line break at a boundary\<close>

text \<open>
  What the specification asks of the two options, in its own words: remove exactly
  one leading line-break token (CR LF, CR, LF, U+2028 or U+2029) from the first chunk
  if one is present, and exactly one trailing line-break token from the last chunk if
  one is present. The theorems below compare the code with these definitions.
\<close>

definition remove_leading_line_break :: "jsstring \<Rightarrow> jsstring" where
  "remove_leading_line_break s =
     (if prefix [13, 10] s then drop 2 s
      else if s \<noteq> [] \<and> is_line_terminator (hd s) then tl s
      else s)"

definition remove_trailing_line_break :: "jsstring \<Rightarrow> jsstring" where
  "remove_trailing_line_break s =
     (if suffix [13, 10] s then take (length s - 2) s
      else if s \<noteq> [] \<and> is_line_terminator (last s) then butlast s
      else s)"

definition remove_boundary_line_breaks :: "bool \<Rightarrow> bool \<Rightarrow> jsstring list \<Rightarrow> jsstring list" where
  "remove_boundary_line_breaks atStart atEnd chunks =
     (let chunks1 = (if atStart then chunks[0 := remove_leading_line_break (chunks ! 0)]
                     else chunks)
      in if atEnd
         then chunks1[length chunks1 - 1 :=
                remove_trailing_line_break (chunks1 ! (length chunks1 - 1))]
         else chunks1)"

section \<open>The values of escape sequences\<close>

text \<open>
  The words of the specification about escape processing: the number that a string of
  digits denotes in base 8 or 16, and the characters that are not special after a
  backslash (not a line terminator, not an octal digit, not \<^verbatim>\<open>u\<close> or \<^verbatim>\<open>x\<close>, and
  none of the mnemonics \<^verbatim>\<open>b t n v f r\<close>).
\<close>

definition number_in_base :: "nat \<Rightarrow> jsstring \<Rightarrow> nat" where
  "number_in_base base digits = foldl (\<lambda>acc d. acc * base + digit_value d) 0 digits"

definition non_special :: "nat \<Rightarrow> bool" where
  "non_special c = (\<not> is_line_terminator c \<and> \<not> is_octal_digit c \<and>
      c \<noteq> 117 \<and> c \<noteq> 120 \<and>
      c \<noteq> 98 \<and> c \<noteq> 116 \<and> c \<noteq> 110 \<and> c \<noteq> 118 \<and> c \<noteq> 102 \<and> c \<noteq> 114)"

section \<open>The common indentation, in the words of the specification\<close>

text \<open>
  Splitting a chunk on line terminators as the claim words it: each of LF, CR,
  U+2028 and U+2029 ends a fragment, CR LF counting as one terminator. Two
  terminators in a row have an empty fragment between them.
\<close>

fun split_at_line_breaks :: "jsstring \<Rightarrow> jsstring list" where
  "split_at_line_breaks [] = [[]]"
| "split_at_line_breaks [c] = (if is_line_terminator c then [[], []] else [[c]])"
| "split_at_line_breaks (c # d # cs) =
     (if c = 13 \<and> d = 10 then [] # split_at_line_breaks cs
      else if is_line_terminator c then [] # split_at_line_breaks (d # cs)
      else (case split_at_line_breaks (d # cs) of
              [] \<Rightarrow> [[c]]
            | fragment # fragments \<Rightarrow> (c # fragment) # fragments))"

text \<open>The pairwise longest common prefix of a list of strings, folded from the left.\<close>

definition pairwise_common_prefix :: "jsstring list \<Rightarrow> jsstring" where
  "pairwise_common_prefix runs =
     (case runs of [] \<Rightarrow> [] | r # rs \<Rightarrow> foldl longest_common_prefix r rs)"

text \<open>
  The common indentation as the claim states it: over the leading white space of every
  fragment but the first of every chunk, with the split above.
\<close>

definition stated_common_indentation :: "jsstring list \<Rightarrow> jsstring" where
  "stated_common_indentation chunks =
     pairwise_common_prefix
       (concat (map (\<lambda>chunk. map WS_RUN_exec (tl (split_at_line_breaks chunk))) chunks))"

text \<open>
  The same with the split the code performs, where a maximal run of terminators is one
  separator.
\<close>

definition common_indentation :: "jsstring list \<Rightarrow> jsstring" where
  "common_indentation chunks =
     pairwise_common_prefix
       (concat (map (\<lambda>chunk. map WS_RUN_exec (tl (split_LINE_TERMINATORS chunk))) chunks))"

text \<open>
  A chunk read as its first fragment followed by pairs of a maximal run of line
  terminators and the line after it, and the chunk with a prefix of a given length
  taken off every such line.
\<close>

definition first_fragment :: "jsstring \<Rightarrow> jsstring" where
  "first_fragment s = takeWhile (\<lambda>c. \<not> is_line_terminator c) s"

function line_breaks_and_lines :: "jsstring \<Rightarrow> (jsstring \<times> jsstring) list" where
  "line_breaks_and_lines s =
     (let rest = dropWhile (\<lambda>c. \<not> is_line_terminator c) s
      in if rest = [] then []
         else (takeWhile is_line_terminator rest,
               first_fragment (dropWhile is_line_terminator rest))
              # line_breaks_and_lines (dropWhile is_line_terminator rest))"
  by pat_completeness auto
termination
proof (relation "measure length")
  show "wf (measure length)" by simp
next
  fix s :: jsstring and rest
  assume rest: "rest = dropWhile (\<lambda>c. \<not> is_line_terminator c) s" and ne: "rest \<noteq> []"
  from ne have "is_line_terminator (hd rest)"
    unfolding rest using hd_dropWhile by blast
  with ne have "length (dropWhile is_line_terminator rest) < length rest"
    by (cases rest) (auto intro: le_imp_less_Suc length_dropWhile_le)
  also have "length rest \<le> length s"
    unfolding rest by (rule length_dropWhile_le)
  finally show "(dropWhile is_line_terminator rest, s) \<in> measure length" by simp
qed

declare line_breaks_and_lines.simps [simp del]

definition strip_after_line_breaks :: "jsstring \<Rightarrow> jsstring \<Rightarrow> jsstring" where
  "strip_after_line_breaks P s =
     first_fragment s @
     concat (map (\<lambda>(run, line). run @ drop (length P) line) (line_breaks_and_lines s))"

section \<open>The shapes of calls, in the words of the specification\<close>

text \<open>
  A call has the shape of a tagged template when its first argument is an array of
  strings whose \<^verbatim>\<open>raw\<close> property is an array of strings of the same length, and the
  number of dynamic values is that length minus one.
\<close>

definition well_shaped :: "jsval \<Rightarrow> jsval list \<Rightarrow> bool" where
  "well_shaped staticStrings dynamicValues =
     (case staticStrings of
        Array i fr es rawArray \<Rightarrow>
          (case rawArray of
             Array j fr' rs r' \<Rightarrow>
               length es = length rs \<and> list_all isString es \<and> list_all isString rs \<and>
               length dynamicValues + 1 = length es
           | _ \<Rightarrow> False)
      | _ \<Rightarrow> False)"

text \<open>
  Shape validation ends with one of three errors: the two that
  \<^verbatim>\<open>requireValidTagInputs\<close> builds and the \<^verbatim>\<open>TypeError\<close> of the engine when \<^verbatim>\<open>raw\<close>
  is missing. The specification calls all of them \<^verbatim>\<open>InvalidInput\<close>.
\<close>

fun InvalidInput :: "js_error \<Rightarrow> bool" where
  "InvalidInput TypeError = True"
| "InvalidInput InvalidStaticStrings = True"
| "InvalidInput (WrongDynamicCount len n) = True"
| "InvalidInput _ = False"

text \<open>
  A call with a chunk sequence of identity \<open>k\<close>; a chunk sequence that the memo table
  accepts (frozen, with a frozen \<^verbatim>\<open>raw\<close>); what the caller of a tag function gets once
  the static state is known; and the message kept for a failure,
  \<^verbatim>\<open>exc.message || 'Failure'\<close>.
\<close>

definition chunk_sequence_call :: "nat \<Rightarrow> jsval list \<Rightarrow> bool" where
  "chunk_sequence_call k args =
     (case args of
        [] \<Rightarrow> False
      | staticStrings # dynamicValues \<Rightarrow>
          identity_of staticStrings = Some k \<and> well_shaped staticStrings dynamicValues)"

definition cache_eligible :: "jsval \<Rightarrow> bool" where
  "cache_eligible staticStrings =
     (isFrozen staticStrings \<and>
      (case get_prop staticStrings ''raw'' of Inl e \<Rightarrow> False | Inr rawArray \<Rightarrow> isFrozen rawArray))"

definition combined ::
  "(jsval \<Rightarrow> 't \<Rightarrow> jsval \<Rightarrow> jsval list \<Rightarrow> jsval + 'r) \<Rightarrow> jsval \<Rightarrow> 't \<Rightarrow> jsval list \<Rightarrow>
   js_error + 'r outcome" where
  "combined computeResultHelper options staticState args =
     (case computeResultHelper options staticState (hd args) (tl args) of
        Inl exc \<Rightarrow> Inl (Thrown exc)
      | Inr r \<Rightarrow> Inr (Returned r))"

definition failure_message :: "jsval \<Rightarrow> jsval" where
  "failure_message message = (if truthy message then message else String (str ''Failure''))"

text \<open>
  The helpers and arrays of the repository's tests: \<^verbatim>\<open>(strings) => strings.length\<close>, a
  result helper that returns what it was given, static helpers that throw
  \<^verbatim>\<open>new Error()\<close> and \<^verbatim>\<open>new Error('Panic')\<close>, the state after
  \<^verbatim>\<open>memoizedTagFunction\<close>, and the chunk sequences \<^verbatim>\<open>['foo', 'bar']\<close> and
  \<^verbatim>\<open>['foo', 'bar', 'baz']\<close> of one identity, frozen or not.
\<close>

definition strings_length :: "jsval \<Rightarrow> jsval + nat" where
  "strings_length strings = (case strings of Array i fr es r \<Rightarrow> Inr (length es) | _ \<Rightarrow> Inr 0)"

definition echo :: "jsval \<Rightarrow> nat \<Rightarrow> jsval \<Rightarrow> jsval list \<Rightarrow> jsval + (jsval \<times> nat \<times> jsval \<times> jsval list)" where
  "echo options computed statics dynamics = Inr (options, computed, statics, dynamics)"

definition throws_empty_error :: "jsval \<Rightarrow> jsval + nat" where
  "throws_empty_error strings = Inl (Object 9 False [(''message'', String [])])"

definition initial_state :: "nat tag_state" where
  "initial_state = snd (memoizedTagFunction 0)"

definition throws_panic :: "jsval \<Rightarrow> jsval + nat" where
  "throws_panic strings = Inl (Object 9 False [(''message'', String (str ''Panic''))])"

definition foo_bar :: "bool \<Rightarrow> jsval" where
  "foo_bar fr = Array 1 fr [String (str ''foo''), String (str ''bar'')]
                  (Array 2 fr [String (str ''foo''), String (str ''bar'')] Undefined)"

definition foo_bar_baz :: "bool \<Rightarrow> jsval" where
  "foo_bar_baz fr = Array 1 fr [String (str ''foo''), String (str ''bar''), String (str ''baz'')]
                  (Array 2 fr [String (str ''foo''), String (str ''bar''), String (str ''baz'')] Undefined)"

section \<open>Evaluation on concrete inputs\<close>

lemmas eval_defs = str_def is_line_terminator_def is_whitespace_def LINE_TERMINATORS_exec_def
  raw_at_def WS_RUN_exec_def split_LINE_TERMINATORS.simps match_prefixPattern_def
  commonPrefixOfTemplateStrings_def trimCommonWhitespaceFromLines_def
  trim_at_start_def trim_at_end_def Let_def
  choose_prefixPattern_def trim_with_pattern_def then_do_def

section \<open>When the detectors throw\<close>










section \<open>The fast path of the trimmer\<close>

text \<open>
  C5, as stated, fails: the test \<^verbatim>\<open>LINE_TERMINATORS.exec(raw[0])\<close> is not anchored, so a
  first chunk that has a line break anywhere activates trimming. The single raw chunk
  \<^verbatim>\<open>'foo\n  bar'\<close> does not start with a line break (removing a leading line break
  leaves it as it is), no option is set, and yet the function returns a new array with
  the chunk \<^verbatim>\<open>'foo\nbar'\<close>.
\<close>

theorem fast_path_unanchored_counterexample:
  "replace_LINE_TERMINATOR_AT_START (str ''foo'' @ [10] @ str ''  bar'')
     = str ''foo'' @ [10] @ str ''  bar'' \<and>
   trimCommonWhitespaceFromLines
     \<lparr>cooked = [str ''foo'' @ [10] @ str ''  bar''], raw = [str ''foo'' @ [10] @ str ''  bar''],
      frozen = True, raw_frozen = True\<rparr>
     \<lparr>trimEolAtStart = False, trimEolAtEnd = False\<rparr>
   = Inr (NewObject \<lparr>cooked = [str ''foo'' @ [10] @ str ''bar''],
                     raw = [str ''foo'' @ [10] @ str ''bar''],
                     frozen = True, raw_frozen = True\<rparr>)"
  by (simp add: eval_defs)

text \<open>
  C5, amended: trimming activates only if the first raw chunk contains a line break.
  For every chunk sequence whose first raw chunk contains no line break, when neither
  \<^verbatim>\<open>trimEolAtStart\<close> nor \<^verbatim>\<open>trimEolAtEnd\<close> is requested, the function returns the input
  object itself, unmodified and without a copy.
\<close>

theorem fast_path_returns_input:
  assumes "raw t = first # rest"
    and "\<not> list_ex is_line_terminator first"
    and "\<not> trimEolAtStart options" and "\<not> trimEolAtEnd options"
  shows "trimCommonWhitespaceFromLines t options = Inr (SameObject t)"
  using assms
  by (simp add: trimCommonWhitespaceFromLines_def commonPrefixOfTemplateStrings_def
      LINE_TERMINATORS_exec_def raw_at_def choose_prefixPattern_def)

theorem fast_path_returns_input_witness:
  "trimCommonWhitespaceFromLines
     \<lparr>cooked = [str ''foo''], raw = [str ''foo''], frozen = True, raw_frozen = True\<rparr>
     \<lparr>trimEolAtStart = False, trimEolAtEnd = False\<rparr>
   = Inr (SameObject \<lparr>cooked = [str ''foo''], raw = [str ''foo''],
                      frozen = True, raw_frozen = True\<rparr>)"
  using fast_path_returns_input[of
      "\<lparr>cooked = [str ''foo''], raw = [str ''foo''], frozen = True, raw_frozen = True\<rparr>"
      "str ''foo''" "[]" "\<lparr>trimEolAtStart = False, trimEolAtEnd = False\<rparr>"]
  by (simp add: str_def is_line_terminator_def)

section \<open>Immutability of the results\<close>

lemma trim_with_pattern_shape:
  "trim_with_pattern pat t options = Inr n \<Longrightarrow>
     frozen n \<and> raw_frozen n \<and> cooked n = map cook (raw n)"
  by (auto simp: trim_with_pattern_def then_do_def Let_def split: sum.splits)

text \<open>
  C9, as stated, fails: on the fast path the function returns its argument, and an
  argument that is not frozen (an array built by hand) stays as it is. For the
  unfrozen single chunk \<^verbatim>\<open>'foo'\<close> the result is that same unfrozen array.
\<close>

theorem result_frozen_counterexample:
  "trimCommonWhitespaceFromLines
     \<lparr>cooked = [str ''foo''], raw = [str ''foo''], frozen = False, raw_frozen = False\<rparr>
     \<lparr>trimEolAtStart = False, trimEolAtEnd = False\<rparr>
   = Inr (SameObject \<lparr>cooked = [str ''foo''], raw = [str ''foo''],
                      frozen = False, raw_frozen = False\<rparr>)
   \<and> \<not> frozen (returned_object (SameObject
         \<lparr>cooked = [str ''foo''], raw = [str ''foo''], frozen = False, raw_frozen = False\<rparr>))"
  by (simp add: eval_defs returned_object_def)

text \<open>
  C9, amended: every result that \<^verbatim>\<open>trimCommonWhitespaceFromLines\<close> builds is immutable:
  the cooked sequence and its parallel raw sequence are both frozen, the cooked
  sequence carries its raw counterpart as a property that can no longer be written,
  and the cooked chunks are the raw chunks after escape processing. Otherwise, and
  only when no option is set, the result is the argument itself, as frozen as it was.
\<close>

theorem built_result_frozen:
  assumes "trimCommonWhitespaceFromLines t options = Inr r"
  shows "(\<exists>n. r = NewObject n \<and> frozen n \<and> raw_frozen n \<and> cooked n = map cook (raw n))
       \<or> (r = SameObject t \<and> \<not> trimEolAtStart options \<and> \<not> trimEolAtEnd options)"
proof (cases "choose_prefixPattern (commonPrefixOfTemplateStrings t) options")
  case None
  then have "\<not> trimEolAtStart options \<and> \<not> trimEolAtEnd options"
    by (auto simp: choose_prefixPattern_def Let_def split: if_splits option.splits)
  moreover from None assms have "r = SameObject t"
    by (simp add: trimCommonWhitespaceFromLines_def)
  ultimately show ?thesis by simp
next
  case (Some pat)
  with assms obtain n where n: "trim_with_pattern pat t options = Inr n" and r: "r = NewObject n"
    by (auto simp: trimCommonWhitespaceFromLines_def then_do_def split: sum.splits)
  from trim_with_pattern_shape[OF n] r show ?thesis by simp
qed

theorem built_result_frozen_witness:
  "frozen \<lparr>cooked = [str ''foo'' @ [10] @ str ''bar''], raw = [str ''foo'' @ [10] @ str ''bar''],
           frozen = True, raw_frozen = True\<rparr>
   \<and> trimCommonWhitespaceFromLines
     \<lparr>cooked = [str ''foo'' @ [10] @ str ''  bar''], raw = [str ''foo'' @ [10] @ str ''  bar''],
      frozen = False, raw_frozen = False\<rparr>
     \<lparr>trimEolAtStart = False, trimEolAtEnd = False\<rparr>
   = Inr (NewObject \<lparr>cooked = [str ''foo'' @ [10] @ str ''bar''],
                     raw = [str ''foo'' @ [10] @ str ''bar''],
                     frozen = True, raw_frozen = True\<rparr>)"
  using built_result_frozen[of
      "\<lparr>cooked = [str ''foo'' @ [10] @ str ''  bar''], raw = [str ''foo'' @ [10] @ str ''  bar''],
        frozen = False, raw_frozen = False\<rparr>"
      "\<lparr>trimEolAtStart = False, trimEolAtEnd = False\<rparr>"
      "NewObject \<lparr>cooked = [str ''foo'' @ [10] @ str ''bar''],
                     raw = [str ''foo'' @ [10] @ str ''bar''],
                     frozen = True, raw_frozen = True\<rparr>"]
  by (simp add: eval_defs)

section \<open>Line breaks at the boundaries\<close>

lemma replace_start_eq: "replace_LINE_TERMINATOR_AT_START s = remove_leading_line_break s"
  by (cases s) (auto simp: remove_leading_line_break_def is_line_terminator_def split: list.splits)

lemma match_end_iff:
  "match_LINE_TERMINATOR_AT_END s \<longleftrightarrow> s = [13, 10] \<or> (\<exists>c. s = [c] \<and> is_line_terminator c)"
  by (cases s rule: match_LINE_TERMINATOR_AT_END.cases) auto

lemma replace_end_eq: "replace_LINE_TERMINATOR_AT_END s = remove_trailing_line_break s"
proof (induction s)
  case Nil
  show ?case by (simp add: remove_trailing_line_break_def)
next
  case (Cons c cs)
  show ?case
  proof (cases "match_LINE_TERMINATOR_AT_END (c # cs)")
    case True
    then show ?thesis
      by (auto simp: match_end_iff remove_trailing_line_break_def)
  next
    case False
    then have cs: "cs \<noteq> [] \<or> \<not> is_line_terminator c"
      by (auto simp: match_end_iff)
    from False have ncrlf: "c # cs \<noteq> [13, 10]" by (auto simp: match_end_iff)
    have "replace_LINE_TERMINATOR_AT_END (c # cs) = c # remove_trailing_line_break cs"
      using False Cons.IH by simp
    also have "\<dots> = remove_trailing_line_break (c # cs)"
    proof (cases cs)
      case Nil
      with cs show ?thesis by (simp add: remove_trailing_line_break_def suffix_Cons)
    next
      case (Cons d ds)
      have s1: "suffix [13, 10] (c # cs) \<longleftrightarrow> suffix [13, 10] cs"
        using ncrlf Cons by (auto simp: suffix_Cons)
      show ?thesis
      proof (cases "suffix [13, 10] cs")
        case True
        then have "2 \<le> length cs" using suffix_length_le by fastforce
        then have "length (c # cs) - 2 = Suc (length cs - 2)" by simp
        with True s1 show ?thesis by (simp add: remove_trailing_line_break_def)
      next
        case False
        with s1 Cons show ?thesis by (simp add: remove_trailing_line_break_def)
      qed
    qed
    finally show ?thesis .
  qed
qed


lemma trim_with_pattern_eq:
  assumes "raw t \<noteq> []" and "length (cooked t) = length (raw t)"
  shows "trim_with_pattern pat t options =
     Inr \<lparr>cooked = map cook (remove_boundary_line_breaks (trimEolAtStart options)
                (trimEolAtEnd options) (map (replace_pattern pat) (raw t))),
          raw = remove_boundary_line_breaks (trimEolAtStart options)
                (trimEolAtEnd options) (map (replace_pattern pat) (raw t)),
          frozen = True, raw_frozen = True\<rparr>"
proof -
  define xs where "xs = map (replace_pattern pat) (raw t)"
  have ne: "xs \<noteq> []" and len: "length (cooked t) = length xs"
    using assms by (simp_all add: xs_def)
  have st: "trim_at_start xs = Inr (xs[0 := remove_leading_line_break (xs ! 0)])"
    using ne by (simp add: trim_at_start_def replace_start_eq)
  have en: "trim_at_end (length (cooked t)) ys
      = Inr (ys[length ys - 1 := remove_trailing_line_break (ys ! (length ys - 1))])"
    if "length ys = length xs" for ys
    using that ne len by (cases xs) (simp_all add: trim_at_end_def replace_end_eq)
  show ?thesis
    unfolding trim_with_pattern_def Let_def xs_def[symmetric]
    by (simp add: st en then_do_def remove_boundary_line_breaks_def Let_def)
qed

lemma replace_NeverMatches: "map (replace_pattern NeverMatches) xs = xs"
  by (induction xs) auto

text \<open>
  C7. When \<^verbatim>\<open>trimEolAtStart\<close> is set, exactly one leading line-break token (of any
  recognised form) is removed from the first chunk if one is present; when
  \<^verbatim>\<open>trimEolAtEnd\<close> is set, exactly one trailing line-break token is removed from the
  last chunk if one is present. The removals act on the chunks as the function leaves
  them without the two options (\<open>r0\<close> below), and they are applied even when no common
  prefix was found, in which case those chunks are the raw chunks of the argument. In
  particular, with both options the single raw chunk
  \<^verbatim>\<open>'\n          bar\n          '\<close> gives the cooked result \<^verbatim>\<open>['bar']\<close>.
  The chunk sequence is one that a tagged template can produce: it has at least one
  chunk and as many raw chunks as cooked ones.
\<close>

theorem eol_trimming:
  assumes "raw t \<noteq> []" and "length (cooked t) = length (raw t)"
    and "trimEolAtStart options \<or> trimEolAtEnd options"
  shows "(\<exists>r0. trimCommonWhitespaceFromLines t \<lparr>trimEolAtStart = False, trimEolAtEnd = False\<rparr> = Inr r0
     \<and> trimCommonWhitespaceFromLines t options =
         Inr (NewObject
           \<lparr>cooked = map cook (remove_boundary_line_breaks (trimEolAtStart options)
                       (trimEolAtEnd options) (raw (returned_object r0))),
            raw = remove_boundary_line_breaks (trimEolAtStart options)
                       (trimEolAtEnd options) (raw (returned_object r0)),
            frozen = True, raw_frozen = True\<rparr>)
     \<and> (choose_prefixPattern (commonPrefixOfTemplateStrings t) options = Some NeverMatches
          \<longrightarrow> r0 = SameObject t))
   \<and> trimCommonWhitespaceFromLines
     \<lparr>cooked = [[10] @ str ''          bar'' @ [10] @ str ''          ''],
      raw = [[10] @ str ''          bar'' @ [10] @ str ''          ''],
      frozen = True, raw_frozen = True\<rparr>
     \<lparr>trimEolAtStart = True, trimEolAtEnd = True\<rparr>
   = Inr (NewObject \<lparr>cooked = [str ''bar''], raw = [str ''bar''],
                     frozen = True, raw_frozen = True\<rparr>)"
proof (rule conjI)
  let ?off = "\<lparr>trimEolAtStart = False, trimEolAtEnd = False\<rparr>"
  let ?cp = "commonPrefixOfTemplateStrings t"
  show "\<exists>r0. trimCommonWhitespaceFromLines t ?off = Inr r0
     \<and> trimCommonWhitespaceFromLines t options =
         Inr (NewObject
           \<lparr>cooked = map cook (remove_boundary_line_breaks (trimEolAtStart options)
                       (trimEolAtEnd options) (raw (returned_object r0))),
            raw = remove_boundary_line_breaks (trimEolAtStart options)
                       (trimEolAtEnd options) (raw (returned_object r0)),
            frozen = True, raw_frozen = True\<rparr>)
     \<and> (choose_prefixPattern ?cp options = Some NeverMatches \<longrightarrow> r0 = SameObject t)"
  proof (cases "\<exists>p. ?cp = Some p \<and> p \<noteq> []")
    case True
    then obtain p where p: "?cp = Some p" "p \<noteq> []" by blast
    have c1: "choose_prefixPattern ?cp ?off = Some (PrefixPattern p)"
      and c2: "choose_prefixPattern ?cp options = Some (PrefixPattern p)"
      using p by (simp_all add: choose_prefixPattern_def Let_def)
    show ?thesis
      using c1 c2 trim_with_pattern_eq[OF assms(1,2), of "PrefixPattern p"]
      by (simp add: trimCommonWhitespaceFromLines_def then_do_def returned_object_def
          remove_boundary_line_breaks_def)
  next
    case False
    then have c1: "choose_prefixPattern ?cp ?off = None"
      and c2: "choose_prefixPattern ?cp options = Some NeverMatches"
      using assms(3) by (auto simp: choose_prefixPattern_def Let_def split: option.splits)
    show ?thesis
      using c1 c2 trim_with_pattern_eq[OF assms(1,2), of NeverMatches options]
      by (simp add: trimCommonWhitespaceFromLines_def then_do_def returned_object_def
          replace_NeverMatches)
  qed
next
  show "trimCommonWhitespaceFromLines
     \<lparr>cooked = [[10] @ str ''          bar'' @ [10] @ str ''          ''],
      raw = [[10] @ str ''          bar'' @ [10] @ str ''          ''],
      frozen = True, raw_frozen = True\<rparr>
     \<lparr>trimEolAtStart = True, trimEolAtEnd = True\<rparr>
   = Inr (NewObject \<lparr>cooked = [str ''bar''], raw = [str ''bar''],
                     frozen = True, raw_frozen = True\<rparr>)"
    by (simp add: eval_defs)
qed

text \<open>
  The theorem at the chunk \<^verbatim>\<open>'\r\n  a\r\n'\<close> with both options: without the options
  the two-space indentation goes, with them the leading and the trailing CR LF go too,
  each as one token.
\<close>

theorem eol_trimming_witness:
  "trimCommonWhitespaceFromLines
     \<lparr>cooked = [[13, 10, 32, 32, 97, 13, 10, 32, 32]], raw = [[13, 10, 32, 32, 97, 13, 10, 32, 32]],
      frozen = True, raw_frozen = True\<rparr>
     \<lparr>trimEolAtStart = False, trimEolAtEnd = False\<rparr>
   = Inr (NewObject \<lparr>cooked = [[13, 10, 97, 13, 10]], raw = [[13, 10, 97, 13, 10]],
                     frozen = True, raw_frozen = True\<rparr>)
   \<and> trimCommonWhitespaceFromLines
     \<lparr>cooked = [[13, 10, 32, 32, 97, 13, 10, 32, 32]], raw = [[13, 10, 32, 32, 97, 13, 10, 32, 32]],
      frozen = True, raw_frozen = True\<rparr>
     \<lparr>trimEolAtStart = True, trimEolAtEnd = True\<rparr>
   = Inr (NewObject \<lparr>cooked = [[97]], raw = [[97]], frozen = True, raw_frozen = True\<rparr>)"
  using eol_trimming[of
      "\<lparr>cooked = [[13, 10, 32, 32, 97, 13, 10, 32, 32]], raw = [[13, 10, 32, 32, 97, 13, 10, 32, 32]],
        frozen = True, raw_frozen = True\<rparr>"
      "\<lparr>trimEolAtStart = True, trimEolAtEnd = True\<rparr>"]
  by (simp add: eval_defs returned_object_def remove_boundary_line_breaks_def
      remove_leading_line_break_def remove_trailing_line_break_def suffix_Cons)

section \<open>Escape processing is faithful\<close>

lemma hex_digit_value: "is_hex_digit h \<Longrightarrow> digit_value h < 16"
  by (auto simp: is_hex_digit_def digit_value_def)

lemma octal_digit_value: "is_octal_digit h \<Longrightarrow> digit_value h < 8"
  by (auto simp: is_octal_digit_def digit_value_def)

lemma octal_is_hex: "is_octal_digit h \<Longrightarrow> is_hex_digit h"
  by (auto simp: is_octal_digit_def is_hex_digit_def)

lemma cook_non_special:
  "non_special c \<Longrightarrow> cook (92 # c # rest) = c # cook rest"
  by (auto simp: non_special_def escape_replacement_def SV_TABLE_def is_line_terminator_def)

lemma cook_hex2:
  assumes "is_hex_digit h1" "is_hex_digit h2"
  shows "cook (92 # 120 # h1 # h2 # rest) = number_in_base 16 [h1, h2] # cook rest"
proof -
  have "digit_value h1 * 16 + digit_value h2 < 65536"
    using hex_digit_value[OF assms(1)] hex_digit_value[OF assms(2)] by simp
  then show ?thesis
    using assms
    by (simp add: is_octal_digit_def escape_replacement_def SV_TABLE_def parseInt_def
        fromCharCode_def number_in_base_def)
qed

lemma cook_hex4:
  assumes "is_hex_digit h1" "is_hex_digit h2" "is_hex_digit h3" "is_hex_digit h4"
  shows "cook (92 # 117 # h1 # h2 # h3 # h4 # rest) = number_in_base 16 [h1, h2, h3, h4] # cook rest"
proof -
  have "((digit_value h1 * 16 + digit_value h2) * 16 + digit_value h3) * 16 + digit_value h4 < 65536"
    using hex_digit_value[OF assms(1)] hex_digit_value[OF assms(2)]
      hex_digit_value[OF assms(3)] hex_digit_value[OF assms(4)] by simp
  then show ?thesis
    using assms
    by (simp add: is_octal_digit_def escape_replacement_def SV_TABLE_def parseInt_def
        fromCharCode_def number_in_base_def)
qed

lemma cook_mnemonics:
  "cook (92 # 98 # rest) = 8 # cook rest"
  "cook (92 # 116 # rest) = 9 # cook rest"
  "cook (92 # 110 # rest) = 10 # cook rest"
  "cook (92 # 118 # rest) = 11 # cook rest"
  "cook (92 # 102 # rest) = 12 # cook rest"
  "cook (92 # 114 # rest) = 13 # cook rest"
  by (simp_all add: is_octal_digit_def escape_replacement_def SV_TABLE_def)

lemma cook_line_continuation:
  "cook (92 # 13 # 10 # rest) = cook rest"
  "cook (92 # 10 # rest) = cook rest"
  "cook (92 # 8232 # rest) = cook rest"
  "cook (92 # 8233 # rest) = cook rest"
  "cook [92, 13] = []"
  "d \<noteq> 10 \<Longrightarrow> cook (92 # 13 # d # rest) = cook (d # rest)"
  by (simp_all add: is_octal_digit_def escape_replacement_def SV_TABLE_def)


lemma take_length_prefix: "prefix ys xs \<Longrightarrow> take (length ys) xs = ys"
  by (auto simp: prefix_def)

lemma take_takeWhile_take: "take (length (takeWhile P (take k xs))) xs = takeWhile P (take k xs)"
  by (rule take_length_prefix) (meson prefix_order.trans take_is_prefix takeWhile_is_prefix)

lemma takeWhile_takeWhile_take: "takeWhile P (takeWhile P (take k xs)) = takeWhile P (take k xs)"
  by (simp add: takeWhile_eq_all_conv)

lemma number_in_base_snoc:
  "number_in_base b (xs @ [x]) = number_in_base b xs * b + digit_value x"
  by (simp add: number_in_base_def)

lemma octal_number_bound:
  "list_all is_octal_digit xs \<Longrightarrow> number_in_base 8 xs < 8 ^ length xs"
proof (induction xs rule: rev_induct)
  case Nil
  show ?case by (simp add: number_in_base_def)
next
  case (snoc x xs)
  then have "number_in_base 8 xs < 8 ^ length xs" and "digit_value x < 8"
    by (simp_all add: octal_digit_value)
  then have "number_in_base 8 xs * 8 + digit_value x < 8 ^ length xs * 8"
    by linarith
  then show ?case by (simp add: number_in_base_snoc mult.commute)
qed

lemma cook_octal:
  assumes d: "is_octal_digit d"
    and ds: "ds = takeWhile is_octal_digit (take (if d \<le> 51 then 2 else 1) rest)"
  shows "cook (92 # d # rest) = number_in_base 8 (d # ds) # cook (drop (length ds) rest)"
proof -
  let ?k = "if d \<le> 51 then 2 else 1 :: nat"
  have m: "match_ESCAPE_SEQUENCE (92 # d # rest) = Some (2 + length ds)"
    using d by (auto simp: ds is_octal_digit_def)
  have tk: "take (length ds) rest = ds"
    unfolding ds by (rule take_takeWhile_take)
  have allo: "list_all is_octal_digit (d # ds)"
    using d unfolding ds by (auto simp: list_all_iff dest: set_takeWhileD)
  have tw: "takeWhile is_octal_digit (d # ds) = d # ds"
    using allo by (simp add: takeWhile_eq_all_conv list_all_iff)
  have "length ds \<le> 2"
    unfolding ds by (rule order_trans[OF length_takeWhile_le]) auto
  then have "(8::nat) ^ length (d # ds) \<le> 8 ^ 3"
    by (intro power_increasing) simp_all
  with octal_number_bound[OF allo] have bound: "number_in_base 8 (d # ds) < 65536"
    by simp
  have sv: "SV_TABLE d = Some SvOctal"
    using d by (auto simp: SV_TABLE_def is_octal_digit_def)
  have esc: "escape_replacement (92 # d # ds) = [number_in_base 8 (d # ds)]"
    using sv tw bound
    by (simp add: escape_replacement_def parseInt_def fromCharCode_def number_in_base_def)
  show ?thesis
    using m tk esc by simp
qed

text \<open>
  C4. The cooked view is derived by applying escape processing to each trimmed raw
  chunk on its own (the cooked chunks of a built result are \<open>map cook\<close> of its raw
  chunks, which stay as they are). In \<open>cook\<close>: a backslash before a non-special
  character yields that character; backslash-x with two hexadecimal digits and
  backslash-u with four yield the code unit the digits denote; a legacy octal escape
  (a digit 0 to 3 with up to two more octal digits, or a digit 4 to 7 with up to one
  more) yields the code unit of its octal value; a backslash before a line break
  (CR LF, CR, LF, U+2028, U+2029) contributes no character; the mnemonics
  \<^verbatim>\<open>b t n v f r\<close> yield backspace, tab, newline, vertical tab, form feed and carriage
  return. Any other character than a backslash is copied.
\<close>

theorem cook_escape_semantics:
  "(non_special c \<longrightarrow> cook (92 # c # rest) = c # cook rest)
   \<and> (is_hex_digit h1 \<and> is_hex_digit h2 \<longrightarrow>
        cook (92 # 120 # h1 # h2 # rest) = number_in_base 16 [h1, h2] # cook rest)
   \<and> (is_hex_digit h1 \<and> is_hex_digit h2 \<and> is_hex_digit h3 \<and> is_hex_digit h4 \<longrightarrow>
        cook (92 # 117 # h1 # h2 # h3 # h4 # rest)
          = number_in_base 16 [h1, h2, h3, h4] # cook rest)
   \<and> (48 \<le> d \<and> d \<le> 51 \<and> ds = takeWhile is_octal_digit (take 2 rest) \<longrightarrow>
        cook (92 # d # rest) = number_in_base 8 (d # ds) # cook (drop (length ds) rest))
   \<and> (52 \<le> e \<and> e \<le> 55 \<and> es = takeWhile is_octal_digit (take 1 rest) \<longrightarrow>
        cook (92 # e # rest) = number_in_base 8 (e # es) # cook (drop (length es) rest))
   \<and> cook (92 # 13 # 10 # rest) = cook rest
   \<and> (rest = [] \<or> hd rest \<noteq> 10 \<longrightarrow> cook (92 # 13 # rest) = cook rest)
   \<and> cook (92 # 10 # rest) = cook rest
   \<and> cook (92 # 8232 # rest) = cook rest
   \<and> cook (92 # 8233 # rest) = cook rest
   \<and> cook (92 # 98 # rest) = 8 # cook rest
   \<and> cook (92 # 116 # rest) = 9 # cook rest
   \<and> cook (92 # 110 # rest) = 10 # cook rest
   \<and> cook (92 # 118 # rest) = 11 # cook rest
   \<and> cook (92 # 102 # rest) = 12 # cook rest
   \<and> cook (92 # 114 # rest) = 13 # cook rest
   \<and> (p \<noteq> 92 \<longrightarrow> cook (p # rest) = p # cook rest)
   \<and> (trimCommonWhitespaceFromLines t options = Inr (NewObject n) \<longrightarrow>
        cooked n = map cook (raw n))"
proof -
  have o1: "48 \<le> d \<and> d \<le> 51 \<and> ds = takeWhile is_octal_digit (take 2 rest) \<longrightarrow>
        cook (92 # d # rest) = number_in_base 8 (d # ds) # cook (drop (length ds) rest)"
    using cook_octal[of d ds rest] by (auto simp: is_octal_digit_def)
  have o2: "52 \<le> e \<and> e \<le> 55 \<and> es = takeWhile is_octal_digit (take 1 rest) \<longrightarrow>
        cook (92 # e # rest) = number_in_base 8 (e # es) # cook (drop (length es) rest)"
    using cook_octal[of e es rest] by (auto simp: is_octal_digit_def)
  have cr: "rest = [] \<or> hd rest \<noteq> 10 \<longrightarrow> cook (92 # 13 # rest) = cook rest"
    using cook_line_continuation(5,6) by (cases rest) auto
  have plain: "p \<noteq> 92 \<longrightarrow> cook (p # rest) = p # cook rest"
    by (cases rest) auto
  have tr: "trimCommonWhitespaceFromLines t options = Inr (NewObject n) \<longrightarrow>
        cooked n = map cook (raw n)"
    by (auto simp: trimCommonWhitespaceFromLines_def trim_with_pattern_def then_do_def Let_def
        split: option.splits sum.splits)
  show ?thesis
    using cook_non_special[of c rest] cook_hex2[of h1 h2 rest] cook_hex4[of h1 h2 h3 h4 rest]
      o1 o2 cr plain tr cook_line_continuation(1-4)[of rest] cook_mnemonics[of rest]
    by blast
qed

text \<open>
  The theorem on the text \<^verbatim>\<open>77x\<close> after escapes such as \<^verbatim>\<open>\/\<close>, \<^verbatim>\<open>\x12\<close>,
  \<^verbatim>\<open>\u1234\<close>, \<^verbatim>\<open>\3\<close> (which takes both sevens: octal 377 is 255) and \<^verbatim>\<open>\4\<close> (which
  takes one: octal 47 is 39), and on the chunk \<^verbatim>\<open>'\n a\\n'\<close>, whose one-space
  indentation goes while its escape is cooked.
\<close>

theorem cook_escape_semantics_witness:
  "cook [92, 47, 55, 55, 120] = [47, 55, 55, 120]
   \<and> cook [92, 120, 49, 50, 55, 55, 120] = [18, 55, 55, 120]
   \<and> cook [92, 117, 49, 50, 51, 52, 55, 55, 120] = [4660, 55, 55, 120]
   \<and> cook [92, 51, 55, 55, 120] = [255, 120]
   \<and> cook [92, 52, 55, 55, 120] = [39, 55, 120]
   \<and> cook [92, 13, 10, 55, 55, 120] = [55, 55, 120]
   \<and> cook [92, 13, 55, 55, 120] = [55, 55, 120]
   \<and> cook [92, 10, 55, 55, 120] = [55, 55, 120]
   \<and> cook [92, 8232, 55, 55, 120] = [55, 55, 120]
   \<and> cook [92, 8233, 55, 55, 120] = [55, 55, 120]
   \<and> cook [92, 98, 55, 55, 120] = [8, 55, 55, 120]
   \<and> cook [92, 116, 55, 55, 120] = [9, 55, 55, 120]
   \<and> cook [92, 110, 55, 55, 120] = [10, 55, 55, 120]
   \<and> cook [92, 118, 55, 55, 120] = [11, 55, 55, 120]
   \<and> cook [92, 102, 55, 55, 120] = [12, 55, 55, 120]
   \<and> cook [92, 114, 55, 55, 120] = [13, 55, 55, 120]
   \<and> cook [97, 55, 55, 120] = [97, 55, 55, 120]
   \<and> trimCommonWhitespaceFromLines
        \<lparr>cooked = [[10, 32, 97, 10]], raw = [[10, 32, 97, 92, 110]],
         frozen = True, raw_frozen = True\<rparr>
        \<lparr>trimEolAtStart = False, trimEolAtEnd = False\<rparr>
      = Inr (NewObject \<lparr>cooked = [[10, 97, 10]], raw = [[10, 97, 92, 110]],
                        frozen = True, raw_frozen = True\<rparr>)"
  using cook_escape_semantics[of 47 "[55, 55, 120]" 49 50 51 52 51 "[55, 55]" 52 "[55]" 97
      "\<lparr>cooked = [[10, 32, 97, 10]], raw = [[10, 32, 97, 92, 110]],
        frozen = True, raw_frozen = True\<rparr>"
      "\<lparr>trimEolAtStart = False, trimEolAtEnd = False\<rparr>"
      "\<lparr>cooked = [[10, 97, 10]], raw = [[10, 97, 92, 110]],
        frozen = True, raw_frozen = True\<rparr>"]
  by (simp add: eval_defs non_special_def is_hex_digit_def is_octal_digit_def
      number_in_base_def digit_value_def escape_replacement_def SV_TABLE_def
      parseInt_def fromCharCode_def)

section \<open>The common indentation and its removal\<close>

lemma commonPrefixOf_eq: "commonPrefixOf a b = longest_common_prefix a b"
  by (induction a b rule: commonPrefixOf.induct) auto

lemma foldl_lcp_Nil: "foldl longest_common_prefix [] xs = []"
  by (induction xs) auto

lemma scan_lines_Some:
  "scan_lines (Some c) ls = Some (foldl longest_common_prefix c (map WS_RUN_exec ls))"
  by (induction ls arbitrary: c) (auto simp: Let_def commonPrefixOf_eq foldl_lcp_Nil)

lemma scan_lines_None:
  "scan_lines None ls =
     (case map WS_RUN_exec ls of [] \<Rightarrow> None | r # rs \<Rightarrow> Some (foldl longest_common_prefix r rs))"
  by (cases ls) (auto simp: Let_def scan_lines_Some foldl_lcp_Nil)

lemma scan_chunks_Some:
  "scan_chunks (Some c) chunks =
     Some (foldl longest_common_prefix c
       (concat (map (\<lambda>chunk. map WS_RUN_exec (tl (split_LINE_TERMINATORS chunk))) chunks)))"
  by (induction chunks arbitrary: c) (auto simp: scan_lines_Some)

lemma scan_chunks_None:
  "scan_chunks None chunks =
     (case concat (map (\<lambda>chunk. map WS_RUN_exec (tl (split_LINE_TERMINATORS chunk))) chunks) of
        [] \<Rightarrow> None
      | r # rs \<Rightarrow> Some (foldl longest_common_prefix r rs))"
proof (induction chunks)
  case Nil
  show ?case by simp
next
  case (Cons chunk chunks)
  show ?case
  proof (cases "map WS_RUN_exec (tl (split_LINE_TERMINATORS chunk))")
    case Nil
    with Cons show ?thesis by (simp add: scan_lines_None)
  next
    case (Cons r rs)
    then show ?thesis by (simp add: scan_lines_None scan_chunks_Some)
  qed
qed

lemma foldl_lcp_prefix:
  "prefix (foldl longest_common_prefix a xs) a \<and>
   (\<forall>x\<in>set xs. prefix (foldl longest_common_prefix a xs) x)"
proof (induction xs arbitrary: a)
  case Nil
  show ?case by simp
next
  case (Cons y ys)
  have 1: "prefix (foldl longest_common_prefix (longest_common_prefix a y) ys)
             (longest_common_prefix a y)"
    and 2: "\<forall>x\<in>set ys. prefix (foldl longest_common_prefix (longest_common_prefix a y) ys) x"
    using Cons.IH[of "longest_common_prefix a y"] by simp_all
  from 1 have "prefix (foldl longest_common_prefix (longest_common_prefix a y) ys) a"
    and "prefix (foldl longest_common_prefix (longest_common_prefix a y) ys) y"
    using longest_common_prefix_prefix1 longest_common_prefix_prefix2 prefix_order.trans
    by blast+
  with 2 show ?case by simp
qed

lemma pairwise_common_prefix_prefix:
  "r \<in> set runs \<Longrightarrow> prefix (pairwise_common_prefix runs) r"
  using foldl_lcp_prefix by (cases runs) (auto simp: pairwise_common_prefix_def)

lemma whitespace_not_terminator: "is_whitespace c \<Longrightarrow> \<not> is_line_terminator c"
  by (auto simp: is_whitespace_def is_line_terminator_def)

lemma split_eq_lines:
  "split_LINE_TERMINATORS s = first_fragment s # map snd (line_breaks_and_lines s)"
proof (induction s rule: line_breaks_and_lines.induct)
  case (1 s)
  show ?case
  proof (cases "dropWhile (\<lambda>c. \<not> is_line_terminator c) s = []")
    case True
    then show ?thesis
      by (subst split_LINE_TERMINATORS.simps, subst line_breaks_and_lines.simps)
         (simp add: first_fragment_def)
  next
    case False
    from "1.IH"[OF refl False] False show ?thesis
      by (subst split_LINE_TERMINATORS.simps, subst line_breaks_and_lines.simps)
         (simp add: first_fragment_def Let_def)
  qed
qed

lemma pieces_rebuild:
  "first_fragment s @ concat (map (\<lambda>(run, line). run @ line) (line_breaks_and_lines s)) = s"
proof (induction s rule: line_breaks_and_lines.induct)
  case (1 s)
  let ?rest = "dropWhile (\<lambda>c. \<not> is_line_terminator c) s"
  show ?case
  proof (cases "?rest = []")
    case True
    then have "takeWhile (\<lambda>c. \<not> is_line_terminator c) s = s"
      by (metis append_Nil2 takeWhile_dropWhile_id)
    with True show ?thesis
      by (subst line_breaks_and_lines.simps) (simp add: first_fragment_def)
  next
    case False
    let ?after = "dropWhile is_line_terminator ?rest"
    have "first_fragment ?after
         @ concat (map (\<lambda>(run, line). run @ line) (line_breaks_and_lines ?after)) = ?after"
      using "1.IH"[OF refl False] .
    then have "first_fragment s @ concat (map (\<lambda>(run, line). run @ line) (line_breaks_and_lines s))
        = takeWhile (\<lambda>c. \<not> is_line_terminator c) s @ takeWhile is_line_terminator ?rest @ ?after"
      using False
      by (subst line_breaks_and_lines.simps) (simp add: first_fragment_def Let_def)
    then show ?thesis by simp
  qed
qed

lemma lines_Nil:
  "dropWhile (\<lambda>c. \<not> is_line_terminator c) s = [] \<Longrightarrow> line_breaks_and_lines s = []"
  by (subst line_breaks_and_lines.simps) simp

lemma lines_Cons:
  "dropWhile (\<lambda>c. \<not> is_line_terminator c) s \<noteq> [] \<Longrightarrow>
   line_breaks_and_lines s =
     (takeWhile is_line_terminator (dropWhile (\<lambda>c. \<not> is_line_terminator c) s),
      first_fragment (dropWhile is_line_terminator (dropWhile (\<lambda>c. \<not> is_line_terminator c) s)))
     # line_breaks_and_lines
         (dropWhile is_line_terminator (dropWhile (\<lambda>c. \<not> is_line_terminator c) s))"
  by (subst line_breaks_and_lines.simps) (simp add: Let_def)

lemma pieces_shape:
  "(run, line) \<in> set (line_breaks_and_lines s) \<Longrightarrow>
     run \<noteq> [] \<and> list_all is_line_terminator run \<and> \<not> list_ex is_line_terminator line"
proof (induction s rule: line_breaks_and_lines.induct)
  case (1 s)
  let ?rest = "dropWhile (\<lambda>c. \<not> is_line_terminator c) s"
  show ?case
  proof (cases "?rest = []")
    case True
    with "1.prems" show ?thesis by (simp add: lines_Nil)
  next
    case False
    let ?after = "dropWhile is_line_terminator ?rest"
    from False have hd: "is_line_terminator (hd ?rest)"
      using hd_dropWhile by blast
    from "1.prems" have
      "(run = takeWhile is_line_terminator ?rest \<and> line = first_fragment ?after)
       \<or> (run, line) \<in> set (line_breaks_and_lines ?after)"
      unfolding lines_Cons[OF False] by auto
    then show ?thesis
    proof
      assume a: "run = takeWhile is_line_terminator ?rest \<and> line = first_fragment ?after"
      have "run \<noteq> []" using a hd False by (cases ?rest) auto
      moreover have "list_all is_line_terminator run"
        using a by (auto simp: list_all_iff dest: set_takeWhileD)
      moreover have "\<not> list_ex is_line_terminator line"
        using a by (auto simp: list_ex_iff first_fragment_def dest: set_takeWhileD)
      ultimately show ?thesis by simp
    next
      assume "(run, line) \<in> set (line_breaks_and_lines ?after)"
      then show ?thesis using "1.IH"[OF refl False] by simp
    qed
  qed
qed



lemma drop_run: "drop (length (takeWhile Q xs) + n) xs = drop n (dropWhile Q xs)"
  by (simp add: dropWhile_eq_drop add.commute)

lemma replace_skip:
  "\<forall>c\<in>set a. \<not> is_line_terminator c \<Longrightarrow>
     replace_prefixPattern P (a @ s) = a @ replace_prefixPattern P s"
  by (induction a) (auto simp: match_prefixPattern_def)

lemma match_run:
  assumes "rest \<noteq> []" and "is_line_terminator (hd rest)"
    and "prefix P (dropWhile is_line_terminator rest)"
  shows "match_prefixPattern P rest = Some (length (takeWhile is_line_terminator rest))"
proof -
  from assms(1,2) obtain k where k: "length (takeWhile is_line_terminator rest) = Suc k"
    by (cases rest) auto
  have "drop (Suc k) rest = dropWhile is_line_terminator rest"
    using k by (simp add: dropWhile_eq_drop)
  with assms(3) k show ?thesis
    by (simp add: match_prefixPattern_def)
qed

lemma replace_lines:
  assumes "\<forall>(run, line)\<in>set (line_breaks_and_lines s). prefix P line"
  shows "replace_prefixPattern P s = strip_after_line_breaks P s"
  using assms
proof (induction s rule: line_breaks_and_lines.induct)
  case (1 s)
  let ?f0 = "takeWhile (\<lambda>c. \<not> is_line_terminator c) s"
  let ?rest = "dropWhile (\<lambda>c. \<not> is_line_terminator c) s"
  have s: "s = ?f0 @ ?rest" by simp
  have f0: "\<forall>c\<in>set ?f0. \<not> is_line_terminator c"
    by (auto dest: set_takeWhileD)
  have r1: "replace_prefixPattern P s = ?f0 @ replace_prefixPattern P ?rest"
    using replace_skip[OF f0, of P ?rest] by simp
  show ?case
  proof (cases "?rest = []")
    case True
    with r1 show ?thesis
      by (simp add: strip_after_line_breaks_def lines_Nil first_fragment_def)
  next
    case False
    let ?run = "takeWhile is_line_terminator ?rest"
    let ?after = "dropWhile is_line_terminator ?rest"
    let ?line = "first_fragment ?after"
    let ?after' = "dropWhile (\<lambda>c. \<not> is_line_terminator c) ?after"
    note lc = lines_Cons[OF False]
    from False have hd: "is_line_terminator (hd ?rest)"
      using hd_dropWhile by blast
    have pl: "prefix P ?line" and rec: "\<forall>(run, line)\<in>set (line_breaks_and_lines ?after). prefix P line"
      using "1.prems" unfolding lc by auto
    have after: "?after = ?line @ ?after'"
      by (simp add: first_fragment_def)
    have "prefix ?line ?after"
      unfolding first_fragment_def by (rule takeWhile_is_prefix)
    with pl have pa: "prefix P ?after" by (rule prefix_order.trans)
    have m: "match_prefixPattern P ?rest = Some (length ?run)"
      by (rule match_run[OF False hd pa])
    have ln: "\<forall>c\<in>set (drop (length P) ?line). \<not> is_line_terminator c"
      by (auto simp: first_fragment_def dest: in_set_dropD set_takeWhileD)
    have ln0: "\<forall>c\<in>set ?line. \<not> is_line_terminator c"
      by (auto simp: first_fragment_def dest: set_takeWhileD)
    have "length P \<le> length ?line" using pl by (rule prefix_length_le)
    then have dr: "drop (length P) ?after = drop (length P) ?line @ ?after'"
      by (subst after) simp
    have ih: "replace_prefixPattern P ?after = strip_after_line_breaks P ?after"
      using "1.IH"[OF refl False rec] .
    have "replace_prefixPattern P ?after = ?line @ replace_prefixPattern P ?after'"
      using replace_skip[OF ln0, of P ?after'] after by simp
    with ih have tail: "replace_prefixPattern P ?after'
        = concat (map (\<lambda>(run, line). run @ drop (length P) line) (line_breaks_and_lines ?after))"
      by (simp add: strip_after_line_breaks_def)
    obtain c cs where rc: "?rest = c # cs" using False by (cases ?rest) auto
    have "replace_prefixPattern P ?rest
        = take (length ?run) ?rest @ replace_prefixPattern P (drop (length ?run + length P) ?rest)"
      using m unfolding rc by simp
    also have "take (length ?run) ?rest = ?run"
      by (rule take_length_prefix) (rule takeWhile_is_prefix)
    also have "drop (length ?run + length P) ?rest = drop (length P) ?after"
      by (rule drop_run)
    also have "replace_prefixPattern P (drop (length P) ?after)
        = drop (length P) ?line @ replace_prefixPattern P ?after'"
      unfolding dr by (rule replace_skip[OF ln])
    finally have "replace_prefixPattern P ?rest
        = ?run @ drop (length P) ?line
          @ concat (map (\<lambda>(run, line). run @ drop (length P) line) (line_breaks_and_lines ?after))"
      using tail by simp
    with r1 show ?thesis
      unfolding strip_after_line_breaks_def lc by (simp add: first_fragment_def)
  qed
qed

lemma raw_at_all: "length cs = length rw \<Longrightarrow> map (raw_at rw) [0..<length cs] = rw"
proof -
  assume "length cs = length rw"
  moreover have "map (raw_at rw) [0..<length rw] = map ((!) rw) [0..<length rw]"
    by (rule map_cong) (simp_all add: raw_at_def)
  ultimately show ?thesis by (simp add: map_nth)
qed

lemma lines_nonempty:
  "list_ex is_line_terminator s \<Longrightarrow> line_breaks_and_lines s \<noteq> []"
proof -
  assume "list_ex is_line_terminator s"
  then have "dropWhile (\<lambda>c. \<not> is_line_terminator c) s \<noteq> []"
    by (auto simp: list_ex_iff dropWhile_eq_Nil_conv)
  then show ?thesis by (simp add: lines_Cons)
qed

lemma line_prefix:
  assumes "chunk \<in> set chunks" and "(run, line) \<in> set (line_breaks_and_lines chunk)"
  shows "prefix (common_indentation chunks) line"
proof -
  have "line \<in> set (tl (split_LINE_TERMINATORS chunk))"
    using assms(2) by (force simp: split_eq_lines)
  then have "WS_RUN_exec line
      \<in> set (concat (map (\<lambda>chunk. map WS_RUN_exec (tl (split_LINE_TERMINATORS chunk))) chunks))"
    using assms(1) by auto
  then have "prefix (common_indentation chunks) (WS_RUN_exec line)"
    unfolding common_indentation_def by (rule pairwise_common_prefix_prefix)
  moreover have "prefix (WS_RUN_exec line) line"
    unfolding WS_RUN_exec_def by (rule takeWhile_is_prefix)
  ultimately show ?thesis by (rule prefix_order.trans)
qed

lemma commonPrefix_eq:
  assumes "length (cooked t) = length (raw t)"
    and "raw t = first # others" and "list_ex is_line_terminator first"
  shows "commonPrefixOfTemplateStrings t = Some (common_indentation (raw t))"
proof -
  let ?runs = "concat (map (\<lambda>chunk. map WS_RUN_exec (tl (split_LINE_TERMINATORS chunk))) (raw t))"
  have "tl (split_LINE_TERMINATORS first) \<noteq> []"
    using lines_nonempty[OF assms(3)] by (simp add: split_eq_lines)
  then have ne: "?runs \<noteq> []" using assms(2) by simp
  have "raw_at (raw t) 0 = first"
    using assms(2) by (simp add: raw_at_def)
  then have "commonPrefixOfTemplateStrings t = scan_chunks None (raw t)"
    using assms(3) unfolding commonPrefixOfTemplateStrings_def raw_at_all[OF assms(1)]
    by (simp add: LINE_TERMINATORS_exec_def)
  also have "\<dots> = Some (pairwise_common_prefix ?runs)"
    using ne by (cases ?runs) (simp_all add: scan_chunks_None pairwise_common_prefix_def)
  finally show ?thesis by (simp add: common_indentation_def)
qed

text \<open>
  C1, as stated, fails where two line terminators follow each other. Splitting the raw
  chunk \<^verbatim>\<open>'\n\n  x'\<close> on line terminators gives an empty fragment between the two
  line feeds, whose leading white space is empty, so the common indentation the claim
  describes is empty and nothing would be stripped. The code splits on runs of
  terminators (\<^verbatim>\<open>/[\n\r\u2028\u2029]+/\<close>), finds the indentation of two spaces and
  returns \<^verbatim>\<open>'\n\nx'\<close>.
\<close>

theorem common_indentation_counterexample:
  "commonPrefixOfTemplateStrings
     \<lparr>cooked = [[10, 10, 32, 32, 120]], raw = [[10, 10, 32, 32, 120]],
      frozen = True, raw_frozen = True\<rparr> = Some [32, 32]
   \<and> stated_common_indentation [[10, 10, 32, 32, 120]] = []
   \<and> trimCommonWhitespaceFromLines
     \<lparr>cooked = [[10, 10, 32, 32, 120]], raw = [[10, 10, 32, 32, 120]],
      frozen = True, raw_frozen = True\<rparr>
     \<lparr>trimEolAtStart = False, trimEolAtEnd = False\<rparr>
     = Inr (NewObject \<lparr>cooked = [[10, 10, 120]], raw = [[10, 10, 120]],
                       frozen = True, raw_frozen = True\<rparr>)"
  by (simp add: eval_defs stated_common_indentation_def pairwise_common_prefix_def)

text \<open>
  C1, amended: for every chunk sequence on which trimming activates (the first raw
  chunk contains a line break; the sequence has as many raw chunks as cooked ones),
  the common indentation is the pairwise longest common prefix of the leading
  white-space runs (tab, vertical tab, form feed, space, no-break space, U+FEFF) of
  every line fragment obtained by splitting each raw chunk on maximal runs of line
  terminators (LF, CR, U+2028, U+2029; CR LF and blank lines are part of one run),
  excluding the first fragment of each chunk. Every chunk is its first fragment
  followed by runs of terminators, each with its line, and every such line starts with
  the common indentation. When that indentation is not empty (and no option is set)
  the result is new: its raw chunks are the raw chunks with exactly that prefix taken
  off every line that follows a run of terminators, the runs themselves being left
  intact, and its cooked chunks are these after escape processing. In particular the
  raw chunks \<^verbatim>\<open>['\n      {\n        Hello, ', '!\n      }']\<close> give the cooked result
  \<^verbatim>\<open>['\n{\n  Hello, ', '!\n}']\<close>.
\<close>

theorem common_indentation_stripped:
  assumes "length (cooked t) = length (raw t)"
    and "raw t = first # others" and "list_ex is_line_terminator first"
  shows "commonPrefixOfTemplateStrings t = Some (common_indentation (raw t))
    \<and> (\<forall>chunk\<in>set (raw t).
          split_LINE_TERMINATORS chunk
            = first_fragment chunk # map snd (line_breaks_and_lines chunk)
        \<and> first_fragment chunk
            @ concat (map (\<lambda>(run, line). run @ line) (line_breaks_and_lines chunk)) = chunk
        \<and> (\<forall>(run, line)\<in>set (line_breaks_and_lines chunk).
              run \<noteq> [] \<and> list_all is_line_terminator run
            \<and> \<not> list_ex is_line_terminator line
            \<and> prefix (common_indentation (raw t)) line))
    \<and> (common_indentation (raw t) \<noteq> []
          \<and> \<not> trimEolAtStart options \<and> \<not> trimEolAtEnd options \<longrightarrow>
        trimCommonWhitespaceFromLines t options =
          Inr (NewObject
            \<lparr>cooked = map cook
               (map (strip_after_line_breaks (common_indentation (raw t))) (raw t)),
             raw = map (strip_after_line_breaks (common_indentation (raw t))) (raw t),
             frozen = True, raw_frozen = True\<rparr>))
    \<and> trimCommonWhitespaceFromLines
         \<lparr>cooked = [[10] @ str ''      {'' @ [10] @ str ''        Hello, '',
                    str ''!'' @ [10] @ str ''      }''],
          raw = [[10] @ str ''      {'' @ [10] @ str ''        Hello, '',
                 str ''!'' @ [10] @ str ''      }''],
          frozen = True, raw_frozen = True\<rparr>
         \<lparr>trimEolAtStart = False, trimEolAtEnd = False\<rparr>
       = Inr (NewObject
           \<lparr>cooked = [[10] @ str ''{'' @ [10] @ str ''  Hello, '', str ''!'' @ [10] @ str ''}''],
            raw = [[10] @ str ''{'' @ [10] @ str ''  Hello, '', str ''!'' @ [10] @ str ''}''],
            frozen = True, raw_frozen = True\<rparr>)"
proof (intro conjI)
  let ?P = "common_indentation (raw t)"
  show cp: "commonPrefixOfTemplateStrings t = Some ?P"
    by (rule commonPrefix_eq[OF assms])
  show "\<forall>chunk\<in>set (raw t).
          split_LINE_TERMINATORS chunk
            = first_fragment chunk # map snd (line_breaks_and_lines chunk)
        \<and> first_fragment chunk
            @ concat (map (\<lambda>(run, line). run @ line) (line_breaks_and_lines chunk)) = chunk
        \<and> (\<forall>(run, line)\<in>set (line_breaks_and_lines chunk).
              run \<noteq> [] \<and> list_all is_line_terminator run
            \<and> \<not> list_ex is_line_terminator line
            \<and> prefix ?P line)"
    using split_eq_lines pieces_rebuild pieces_shape line_prefix by fast
  show "?P \<noteq> [] \<and> \<not> trimEolAtStart options \<and> \<not> trimEolAtEnd options \<longrightarrow>
        trimCommonWhitespaceFromLines t options =
          Inr (NewObject
            \<lparr>cooked = map cook (map (strip_after_line_breaks ?P) (raw t)),
             raw = map (strip_after_line_breaks ?P) (raw t),
             frozen = True, raw_frozen = True\<rparr>)"
  proof
    assume a: "?P \<noteq> [] \<and> \<not> trimEolAtStart options \<and> \<not> trimEolAtEnd options"
    have "map (replace_prefixPattern ?P) (raw t) = map (strip_after_line_breaks ?P) (raw t)"
      using replace_lines[where P = ?P] line_prefix[where chunks = "raw t"]
      by (intro map_cong refl) fast
    with a cp show "trimCommonWhitespaceFromLines t options =
          Inr (NewObject
            \<lparr>cooked = map cook (map (strip_after_line_breaks ?P) (raw t)),
             raw = map (strip_after_line_breaks ?P) (raw t),
             frozen = True, raw_frozen = True\<rparr>)"
      by (simp add: trimCommonWhitespaceFromLines_def choose_prefixPattern_def
          trim_with_pattern_def then_do_def Let_def)
  qed
  show "trimCommonWhitespaceFromLines
         \<lparr>cooked = [[10] @ str ''      {'' @ [10] @ str ''        Hello, '',
                    str ''!'' @ [10] @ str ''      }''],
          raw = [[10] @ str ''      {'' @ [10] @ str ''        Hello, '',
                 str ''!'' @ [10] @ str ''      }''],
          frozen = True, raw_frozen = True\<rparr>
         \<lparr>trimEolAtStart = False, trimEolAtEnd = False\<rparr>
       = Inr (NewObject
           \<lparr>cooked = [[10] @ str ''{'' @ [10] @ str ''  Hello, '', str ''!'' @ [10] @ str ''}''],
            raw = [[10] @ str ''{'' @ [10] @ str ''  Hello, '', str ''!'' @ [10] @ str ''}''],
            frozen = True, raw_frozen = True\<rparr>)"
    by (simp add: eval_defs)
qed


text \<open>
  The theorem at the chunks \<^verbatim>\<open>'\n\n  x\r\n   y'\<close> and \<^verbatim>\<open>'z\n  w'\<close>: the
  indentation is two spaces, and it goes after each of the three runs of terminators.
\<close>

theorem common_indentation_stripped_witness:
  "commonPrefixOfTemplateStrings
     \<lparr>cooked = [[10, 10, 32, 32, 120, 13, 10, 32, 32, 32, 121], [122, 10, 32, 32, 119]],
      raw = [[10, 10, 32, 32, 120, 13, 10, 32, 32, 32, 121], [122, 10, 32, 32, 119]],
      frozen = True, raw_frozen = True\<rparr> = Some [32, 32]
   \<and> trimCommonWhitespaceFromLines
     \<lparr>cooked = [[10, 10, 32, 32, 120, 13, 10, 32, 32, 32, 121], [122, 10, 32, 32, 119]],
      raw = [[10, 10, 32, 32, 120, 13, 10, 32, 32, 32, 121], [122, 10, 32, 32, 119]],
      frozen = True, raw_frozen = True\<rparr>
     \<lparr>trimEolAtStart = False, trimEolAtEnd = False\<rparr>
     = Inr (NewObject
         \<lparr>cooked = [[10, 10, 120, 13, 10, 32, 121], [122, 10, 119]],
          raw = [[10, 10, 120, 13, 10, 32, 121], [122, 10, 119]],
          frozen = True, raw_frozen = True\<rparr>)"
proof -
  let ?t = "\<lparr>cooked = [[10, 10, 32, 32, 120, 13, 10, 32, 32, 32, 121], [122, 10, 32, 32, 119]],
      raw = [[10, 10, 32, 32, 120, 13, 10, 32, 32, 32, 121], [122, 10, 32, 32, 119]],
      frozen = True, raw_frozen = True\<rparr>"
  have h1: "length (cooked ?t) = length (raw ?t)" by simp
  have h2: "raw ?t = [10, 10, 32, 32, 120, 13, 10, 32, 32, 32, 121] # [[122, 10, 32, 32, 119]]"
    by simp
  have h3: "list_ex is_line_terminator [10, 10, 32, 32, 120, 13, 10, 32, 32, 32, 121]"
    by (simp add: is_line_terminator_def)
  have ci: "common_indentation (raw ?t) = [32, 32]"
    by (simp add: common_indentation_def pairwise_common_prefix_def eval_defs)
  have "commonPrefixOfTemplateStrings ?t = Some (common_indentation (raw ?t))"
    using common_indentation_stripped[OF h1 h2 h3] by (rule conjunct1)
  with ci have "commonPrefixOfTemplateStrings ?t = Some [32, 32]" by simp
  moreover have "trimCommonWhitespaceFromLines ?t \<lparr>trimEolAtStart = False, trimEolAtEnd = False\<rparr>
     = Inr (NewObject
         \<lparr>cooked = [[10, 10, 120, 13, 10, 32, 121], [122, 10, 119]],
          raw = [[10, 10, 120, 13, 10, 32, 121], [122, 10, 119]],
          frozen = True, raw_frozen = True\<rparr>)"
    by (simp add: eval_defs)
  ultimately show ?thesis by simp
qed

section \<open>Shape validation\<close>

lemmas call_defs = usingOptions_def requireValidTagInputs_def then_do_def isStringArray_def
  staticStateFor_def memoTable_get_def memoTable_set_def Let_def

lemmas test_defs = strings_length_def echo_def initial_state_def memoizedTagFunction_def
  foo_bar_def

lemmas shape_defs = chunk_sequence_call_def well_shaped_def cache_eligible_def combined_def

lemma well_shaped_valid:
  "well_shaped v dyn \<Longrightarrow> requireValidTagInputs v dyn = Inr ()"
  by (auto simp: well_shaped_def requireValidTagInputs_def then_do_def isStringArray_def
      split: jsval.splits)

lemma not_well_shaped_invalid:
  assumes "\<not> well_shaped v dyn"
  shows "\<exists>e. requireValidTagInputs v dyn = Inl e \<and> InvalidInput e"
proof (cases v)
  case (Array i fr es r)
  show ?thesis
  proof (cases r)
    case (Array j fr' rs r')
    with \<open>v = Array i fr es r\<close> assms show ?thesis
      by (auto simp: well_shaped_def requireValidTagInputs_def then_do_def isStringArray_def)
  next
    case (Object j fr' props)
    with \<open>v = Array i fr es r\<close> show ?thesis
      by (auto simp: requireValidTagInputs_def then_do_def isStringArray_def)
  qed (use \<open>v = Array i fr es r\<close> in
        \<open>auto simp: requireValidTagInputs_def then_do_def isStringArray_def\<close>)
next
  case (Object i fr props)
  show ?thesis
  proof (cases "case map_of props ''raw'' of None \<Rightarrow> Undefined | Some x \<Rightarrow> x")
    case Undefined
    with Object show ?thesis
      by (simp add: requireValidTagInputs_def then_do_def isStringArray_def)
  next
    case Null
    with Object show ?thesis
      by (simp add: requireValidTagInputs_def then_do_def isStringArray_def)
  qed (use Object in \<open>auto simp: requireValidTagInputs_def then_do_def isStringArray_def\<close>)
qed (auto simp: requireValidTagInputs_def then_do_def isStringArray_def)

text \<open>
  C6, as stated, fails for a first argument that is not an array when it is the only
  argument: that call configures the tag. \<^verbatim>\<open>myTag(42)\<close> returns a tag function bound to
  42 and throws nothing.
\<close>

theorem invalid_call_counterexample:
  "usingOptions strings_length echo (Object 0 False []) [Number 42] initial_state
   = (Inr (Configured (Number 42)), initial_state)"
  by (simp add: usingOptions_def)

text \<open>
  C6, amended: a call validates its shape before any helper runs (the state, with its
  two counters, is unchanged) and fails with an \<^verbatim>\<open>InvalidInput\<close> error whenever the
  call is not well shaped and is not a configuring call, that is, the first argument
  is an array or at least one dynamic value is given. This covers a first argument that
  is not an array together with a dynamic value, an array without a \<^verbatim>\<open>raw\<close> property,
  a chunk sequence and a \<^verbatim>\<open>raw\<close> of different lengths, an element of either that is
  not a string, and a number of dynamic values other than the number of chunks minus
  one. A well-shaped call passes validation.
\<close>

theorem invalid_call_rejected:
  "(well_shaped staticStrings dynamicValues \<longrightarrow>
      requireValidTagInputs staticStrings dynamicValues = Inr ())
   \<and> ((isArray staticStrings \<or> dynamicValues \<noteq> []) \<and>
        \<not> well_shaped staticStrings dynamicValues \<longrightarrow>
      (\<exists>e. usingOptions computeStaticHelper computeResultHelper options
              (staticStrings # dynamicValues) st = (Inl e, st) \<and> InvalidInput e))"
proof (intro conjI impI)
  assume "well_shaped staticStrings dynamicValues"
  then show "requireValidTagInputs staticStrings dynamicValues = Inr ()"
    by (rule well_shaped_valid)
next
  assume a: "(isArray staticStrings \<or> dynamicValues \<noteq> []) \<and>
        \<not> well_shaped staticStrings dynamicValues"
  then obtain e where e: "requireValidTagInputs staticStrings dynamicValues = Inl e"
      and i: "InvalidInput e"
    using not_well_shaped_invalid by blast
  from a e have "usingOptions computeStaticHelper computeResultHelper options
              (staticStrings # dynamicValues) st = (Inl e, st)"
    by (auto simp: usingOptions_def)
  with i show "\<exists>e. usingOptions computeStaticHelper computeResultHelper options
              (staticStrings # dynamicValues) st = (Inl e, st) \<and> InvalidInput e"
    by blast
qed

theorem invalid_call_rejected_witness:
  "requireValidTagInputs (foo_bar True) [Number 7] = Inr ()
   \<and> (\<exists>e. usingOptions strings_length echo (Object 0 False []) [Number 42, Number 7]
             initial_state = (Inl e, initial_state) \<and> InvalidInput e)
   \<and> usingOptions strings_length echo (Object 0 False []) [Number 42, Number 7] initial_state
      = (Inl TypeError, initial_state)
   \<and> usingOptions strings_length echo (Object 0 False [])
        [Array 1 True [String (str ''a'')] Undefined] initial_state
      = (Inl TypeError, initial_state)
   \<and> usingOptions strings_length echo (Object 0 False [])
        [Array 1 True [String (str ''a'')] (Array 2 True [] Undefined)] initial_state
      = (Inl InvalidStaticStrings, initial_state)
   \<and> usingOptions strings_length echo (Object 0 False [])
        [Array 1 True [Number 1] (Array 2 True [String (str ''1'')] Undefined)] initial_state
      = (Inl InvalidStaticStrings, initial_state)
   \<and> usingOptions strings_length echo (Object 0 False []) [foo_bar True] initial_state
      = (Inl (WrongDynamicCount (Number 2) 0), initial_state)"
proof -
  have 1: "requireValidTagInputs (foo_bar True) [Number 7] = Inr ()"
    using invalid_call_rejected[where staticStrings = "foo_bar True"
        and dynamicValues = "[Number 7]"]
    by (simp add: well_shaped_def foo_bar_def)
  have 2: "\<exists>e. usingOptions strings_length echo (Object 0 False []) [Number 42, Number 7]
             initial_state = (Inl e, initial_state) \<and> InvalidInput e"
    using invalid_call_rejected[where staticStrings = "Number 42"
        and dynamicValues = "[Number 7]" and computeStaticHelper = strings_length
        and computeResultHelper = echo and options = "Object 0 False []"
        and st = initial_state]
    by (simp add: well_shaped_def)
  have 3: "usingOptions strings_length echo (Object 0 False []) [Number 42, Number 7] initial_state
      = (Inl TypeError, initial_state)"
    by (simp add: call_defs)
  have 4: "usingOptions strings_length echo (Object 0 False [])
        [Array 1 True [String (str ''a'')] Undefined] initial_state
      = (Inl TypeError, initial_state)"
    by (simp add: call_defs)
  have 5: "usingOptions strings_length echo (Object 0 False [])
        [Array 1 True [String (str ''a'')] (Array 2 True [] Undefined)] initial_state
      = (Inl InvalidStaticStrings, initial_state)"
    by (simp add: call_defs)
  have 6: "usingOptions strings_length echo (Object 0 False [])
        [Array 1 True [Number 1] (Array 2 True [String (str ''1'')] Undefined)] initial_state
      = (Inl InvalidStaticStrings, initial_state)"
    by (simp add: call_defs)
  have 7: "usingOptions strings_length echo (Object 0 False []) [foo_bar True] initial_state
      = (Inl (WrongDynamicCount (Number 2) 0), initial_state)"
    by (simp add: call_defs foo_bar_def)
  from 1 2 3 4 5 6 7 show ?thesis by blast
qed

section \<open>Memoization by identity\<close>

lemma well_shaped_Array:
  "well_shaped v dyn \<Longrightarrow> \<exists>i fr es j fr' rs r'. v = Array i fr es (Array j fr' rs r')"
  by (auto simp: well_shaped_def split: jsval.splits)

lemma static_hit_pass:
  assumes "well_shaped v dyn" "identity_of v = Some k" "cache_eligible v"
    and "memoTable st k = Some (Pass x)"
  shows "staticStateFor cs v st = (Inr x, st)"
proof -
  from assms(1) obtain i fr es j fr' rs r' where v: "v = Array i fr es (Array j fr' rs r')"
    using well_shaped_Array by blast
  with assms(2-4) show ?thesis
    by (simp add: staticStateFor_def cache_eligible_def memoTable_get_def)
qed

lemma static_hit_fail:
  assumes "well_shaped v dyn" "identity_of v = Some k" "cache_eligible v"
    and "memoTable st k = Some (Fail m)"
  shows "staticStateFor cs v st = (Inl (NewError m), st)"
proof -
  from assms(1) obtain i fr es j fr' rs r' where v: "v = Array i fr es (Array j fr' rs r')"
    using well_shaped_Array by blast
  with assms(2-4) show ?thesis
    by (simp add: staticStateFor_def cache_eligible_def memoTable_get_def)
qed

lemma static_miss_pass:
  assumes "well_shaped v dyn" "identity_of v = Some k" "cache_eligible v"
    and "memoTable st k = None" and "cs v = Inr x"
  shows "staticStateFor cs v st =
     (Inr x, st\<lparr>staticHelperCalls := staticHelperCalls st + 1,
                memoTable := (memoTable st)(k \<mapsto> Pass x)\<rparr>)"
proof -
  from assms(1) obtain i fr es j fr' rs r' where v: "v = Array i fr es (Array j fr' rs r')"
    using well_shaped_Array by blast
  with assms(2-5) show ?thesis
    by (simp add: staticStateFor_def cache_eligible_def memoTable_get_def memoTable_set_def)
qed

lemma static_miss_fail:
  assumes "well_shaped v dyn" "identity_of v = Some k" "cache_eligible v"
    and "memoTable st k = None" and "cs v = Inl exc" and "get_prop exc ''message'' = Inr m"
  shows "staticStateFor cs v st =
     (Inl (if truthy exc then Thrown exc else NewError (failure_message m)),
      st\<lparr>staticHelperCalls := staticHelperCalls st + 1,
         memoTable := (memoTable st)(k \<mapsto> Fail (failure_message m))\<rparr>)"
proof -
  from assms(1) obtain i fr es j fr' rs r' where v: "v = Array i fr es (Array j fr' rs r')"
    using well_shaped_Array by blast
  with assms(2-6) show ?thesis
    by (simp add: staticStateFor_def cache_eligible_def memoTable_get_def memoTable_set_def
        failure_message_def Let_def)
qed

lemma static_uncached:
  assumes "well_shaped v dyn" "\<not> cache_eligible v"
  shows "staticHelperCalls (snd (staticStateFor cs v st)) = staticHelperCalls st + 1
    \<and> memoTable (snd (staticStateFor cs v st)) = memoTable st
    \<and> resultHelperCalls (snd (staticStateFor cs v st)) = resultHelperCalls st
    \<and> (\<forall>x. cs v = Inr x \<longrightarrow> fst (staticStateFor cs v st) = Inr x)"
proof -
  from assms(1) obtain i fr es j fr' rs r' where v: "v = Array i fr es (Array j fr' rs r')"
    using well_shaped_Array by blast
  with assms(2) show ?thesis
    by (auto simp: staticStateFor_def cache_eligible_def Let_def split: sum.splits)
qed

lemma call_unfold:
  assumes "chunk_sequence_call k args"
  shows "usingOptions cs cr opts args st =
     (case staticStateFor cs (hd args) st of
        (Inl e, st1) \<Rightarrow> (Inl e, st1)
      | (Inr x, st1) \<Rightarrow>
          (combined cr opts x args, st1\<lparr>resultHelperCalls := resultHelperCalls st1 + 1\<rparr>))"
proof -
  from assms obtain v dyn where a: "args = v # dyn" and w: "well_shaped v dyn"
    by (auto simp: chunk_sequence_call_def split: list.splits)
  from w have "isArray v" using well_shaped_Array by fastforce
  with a well_shaped_valid[OF w] show ?thesis
    by (auto simp: usingOptions_def combined_def Let_def split: sum.splits prod.splits)
qed

lemma call_parts:
  assumes "chunk_sequence_call k args"
  shows "well_shaped (hd args) (tl args) \<and> identity_of (hd args) = Some k"
  using assms by (auto simp: chunk_sequence_call_def split: list.splits)

lemma call_hit_pass:
  assumes "chunk_sequence_call k args" "cache_eligible (hd args)"
    and "memoTable st k = Some (Pass x)"
  shows "usingOptions cs cr opts args st =
     (combined cr opts x args, st\<lparr>resultHelperCalls := resultHelperCalls st + 1\<rparr>)"
proof -
  from call_parts[OF assms(1)] have w: "well_shaped (hd args) (tl args)"
    and i: "identity_of (hd args) = Some k" by simp_all
  note eq = static_hit_pass[where cs = cs, OF w i assms(2,3)]
  show ?thesis by (simp add: call_unfold[OF assms(1)] eq)
qed

lemma call_hit_fail:
  assumes "chunk_sequence_call k args" "cache_eligible (hd args)"
    and "memoTable st k = Some (Fail m)"
  shows "usingOptions cs cr opts args st = (Inl (NewError m), st)"
proof -
  from call_parts[OF assms(1)] have w: "well_shaped (hd args) (tl args)"
    and i: "identity_of (hd args) = Some k" by simp_all
  note eq = static_hit_fail[where cs = cs, OF w i assms(2,3)]
  show ?thesis by (simp add: call_unfold[OF assms(1)] eq)
qed

lemma call_miss_pass:
  assumes "chunk_sequence_call k args" "cache_eligible (hd args)"
    and "memoTable st k = None" and "cs (hd args) = Inr x"
  shows "usingOptions cs cr opts args st =
     (combined cr opts x args,
      st\<lparr>staticHelperCalls := staticHelperCalls st + 1,
         memoTable := (memoTable st)(k \<mapsto> Pass x),
         resultHelperCalls := resultHelperCalls st + 1\<rparr>)"
proof -
  from call_parts[OF assms(1)] have w: "well_shaped (hd args) (tl args)"
    and i: "identity_of (hd args) = Some k" by simp_all
  note eq = static_miss_pass[where cs = cs, OF w i assms(2-4)]
  show ?thesis by (simp add: call_unfold[OF assms(1)] eq)
qed

lemma call_miss_fail:
  assumes "chunk_sequence_call k args" "cache_eligible (hd args)"
    and "memoTable st k = None" and "cs (hd args) = Inl exc"
    and "get_prop exc ''message'' = Inr m"
  shows "usingOptions cs cr opts args st =
     (Inl (if truthy exc then Thrown exc else NewError (failure_message m)),
      st\<lparr>staticHelperCalls := staticHelperCalls st + 1,
         memoTable := (memoTable st)(k \<mapsto> Fail (failure_message m))\<rparr>)"
proof -
  from call_parts[OF assms(1)] have w: "well_shaped (hd args) (tl args)"
    and i: "identity_of (hd args) = Some k" by simp_all
  note eq = static_miss_fail[where cs = cs, OF w i assms(2-5)]
  show ?thesis by (simp add: call_unfold[OF assms(1)] eq)
qed

lemma seq_hit_pass:
  assumes "\<forall>(opts, args)\<in>set calls. chunk_sequence_call k args \<and> cache_eligible (hd args)"
    and "memoTable st k = Some (Pass x)"
  shows "call_sequence cs cr calls st =
     (map (\<lambda>(opts, args). combined cr opts x args) calls,
      st\<lparr>resultHelperCalls := resultHelperCalls st + length calls\<rparr>)"
  using assms
proof (induction calls arbitrary: st)
  case Nil
  show ?case by simp
next
  case (Cons c calls)
  obtain opts args where c: "c = (opts, args)" by (cases c)
  with Cons.prems have h: "chunk_sequence_call k args" "cache_eligible (hd args)" by auto
  let ?st1 = "st\<lparr>resultHelperCalls := resultHelperCalls st + 1\<rparr>"
  have m1: "memoTable ?st1 k = Some (Pass x)" using Cons.prems(2) by simp
  have rest: "\<forall>(opts, args)\<in>set calls. chunk_sequence_call k args \<and> cache_eligible (hd args)"
    using Cons.prems(1) by simp
  have step: "usingOptions cs cr opts args st = (combined cr opts x args, ?st1)"
    by (rule call_hit_pass[OF h Cons.prems(2)])
  have ih: "call_sequence cs cr calls ?st1 =
     (map (\<lambda>(opts, args). combined cr opts x args) calls,
      ?st1\<lparr>resultHelperCalls := resultHelperCalls ?st1 + length calls\<rparr>)"
    by (rule Cons.IH[OF rest m1])
  show ?case
    unfolding c call_sequence.simps step prod.case ih by simp
qed

lemma seq_hit_fail:
  assumes "\<forall>(opts, args)\<in>set calls. chunk_sequence_call k args \<and> cache_eligible (hd args)"
    and "memoTable st k = Some (Fail m)"
  shows "call_sequence cs cr calls st = (map (\<lambda>c. Inl (NewError m)) calls, st)"
  using assms
proof (induction calls)
  case Nil
  show ?case by simp
next
  case (Cons c calls)
  obtain opts args where c: "c = (opts, args)" by (cases c)
  with Cons.prems have h: "chunk_sequence_call k args" "cache_eligible (hd args)" by auto
  have rest: "\<forall>(opts, args)\<in>set calls. chunk_sequence_call k args \<and> cache_eligible (hd args)"
    using Cons.prems(1) by simp
  show ?case
    unfolding c
    by (simp add: call_hit_fail[OF h Cons.prems(2)] Cons.IH[OF rest Cons.prems(2)])
qed

lemma seq_uncached:
  assumes "\<forall>(opts, args)\<in>set calls. chunk_sequence_call k args \<and> \<not> cache_eligible (hd args)"
  shows "staticHelperCalls (snd (call_sequence cs cr calls st))
           = staticHelperCalls st + length calls
     \<and> ((\<forall>(opts, args)\<in>set calls. \<exists>x. cs (hd args) = Inr x) \<longrightarrow>
          fst (call_sequence cs cr calls st)
            = map (\<lambda>(opts, args). combined cr opts (projr (cs (hd args))) args) calls)"
  using assms
proof (induction calls arbitrary: st)
  case Nil
  show ?case by simp
next
  case (Cons c calls)
  obtain opts args where c: "c = (opts, args)" by (cases c)
  with Cons.prems have h: "chunk_sequence_call k args" "\<not> cache_eligible (hd args)" by auto
  have rest: "\<forall>(opts, args)\<in>set calls. chunk_sequence_call k args \<and> \<not> cache_eligible (hd args)"
    using Cons.prems(1) by simp
  note u = static_uncached[OF conjunct1[OF call_parts[OF h(1)]] h(2), of cs st]
  obtain r st1 where s: "staticStateFor cs (hd args) st = (r, st1)" by (cases "staticStateFor cs (hd args) st")
  from u s have st1: "staticHelperCalls st1 = staticHelperCalls st + 1"
    and r: "\<forall>x. cs (hd args) = Inr x \<longrightarrow> r = Inr x" by simp_all
  obtain out st2 where o: "usingOptions cs cr opts args st = (out, st2)"
    by (cases "usingOptions cs cr opts args st")
  have st2: "staticHelperCalls st2 = staticHelperCalls st + 1"
    using o st1 s by (cases r) (auto simp: call_unfold[OF h(1)])
  have out: "cs (hd args) = Inr x \<Longrightarrow> out = combined cr opts x args" for x
    using o r s by (auto simp: call_unfold[OF h(1)])
  note ih = Cons.IH[OF rest, of st2]
  show ?case
    unfolding c using ih st2 o out
    by (auto simp: split_beta)
qed

text \<open>
  C2, as stated, fails for a chunk sequence that is not frozen, the only kind that can be
  mutated in place: it is never stored, and the static helper runs on every call. This
  is the repository's test of mutation: after \<^verbatim>\<open>push('baz')\<close> the second call computes 3
  where the first computed 2, and the helper has run twice.
\<close>

theorem static_helper_once_counterexample:
  "fst (call_sequence strings_length echo
          [(Object 0 False [], [foo_bar False, Number 0]),
           (Object 0 False [], [foo_bar_baz False, Number 0, Number 1])] initial_state)
     = [Inr (Returned (Object 0 False [], 2, foo_bar False, [Number 0])),
        Inr (Returned (Object 0 False [], 3, foo_bar_baz False, [Number 0, Number 1]))]
   \<and> staticHelperCalls (snd (call_sequence strings_length echo
          [(Object 0 False [], [foo_bar False, Number 0]),
           (Object 0 False [], [foo_bar_baz False, Number 0, Number 1])] initial_state)) = 2"
  by (simp add: call_defs test_defs foo_bar_baz_def)

text \<open>
  C2, amended: for a fixed chunk-sequence identity that is cache-eligible (frozen, with
  a frozen \<^verbatim>\<open>raw\<close>) and not yet in the memo table, when the static helper returns
  on the first call, it is invoked exactly once across any number of well-shaped calls
  of tag functions that share the table, and each call returns what the combiner makes
  of its own configuration, that one static state, and the sequence and dynamic values
  it was called with. For a sequence that is not cache-eligible the static helper is
  invoked on every well-shaped call, and where it returns, each result is built from
  the static state computed from the sequence as it is at that call.
\<close>

theorem static_helper_once:
  "((\<forall>(opts, args)\<in>set (c # calls). chunk_sequence_call k args \<and> cache_eligible (hd args))
      \<and> memoTable st k = None \<and> cs (hd (snd c)) = Inr x \<longrightarrow>
     call_sequence cs cr (c # calls) st =
       (map (\<lambda>(opts, args). combined cr opts x args) (c # calls),
        st\<lparr>staticHelperCalls := staticHelperCalls st + 1,
           memoTable := (memoTable st)(k \<mapsto> Pass x),
           resultHelperCalls := resultHelperCalls st + length (c # calls)\<rparr>))
   \<and> ((\<forall>(opts, args)\<in>set others. chunk_sequence_call k args \<and> \<not> cache_eligible (hd args)) \<longrightarrow>
       staticHelperCalls (snd (call_sequence cs cr others st))
         = staticHelperCalls st + length others
       \<and> ((\<forall>(opts, args)\<in>set others. \<exists>y. cs (hd args) = Inr y) \<longrightarrow>
            fst (call_sequence cs cr others st)
              = map (\<lambda>(opts, args). combined cr opts (projr (cs (hd args))) args) others))"
proof (intro conjI impI)
  assume a: "(\<forall>(opts, args)\<in>set (c # calls). chunk_sequence_call k args \<and> cache_eligible (hd args))
      \<and> memoTable st k = None \<and> cs (hd (snd c)) = Inr x"
  obtain opts args where c: "c = (opts, args)" by (cases c)
  from a c have h: "chunk_sequence_call k args" "cache_eligible (hd args)"
    and m: "memoTable st k = None" and x: "cs (hd args) = Inr x"
    and rest: "\<forall>(opts, args)\<in>set calls. chunk_sequence_call k args \<and> cache_eligible (hd args)"
    by auto
  let ?st1 = "st\<lparr>staticHelperCalls := staticHelperCalls st + 1,
         memoTable := (memoTable st)(k \<mapsto> Pass x),
         resultHelperCalls := resultHelperCalls st + 1\<rparr>"
  have step: "usingOptions cs cr opts args st = (combined cr opts x args, ?st1)"
    by (rule call_miss_pass[where cs = cs, OF h m x])
  have m1: "memoTable ?st1 k = Some (Pass x)" by simp
  have tail: "call_sequence cs cr calls ?st1 =
     (map (\<lambda>(opts, args). combined cr opts x args) calls,
      ?st1\<lparr>resultHelperCalls := resultHelperCalls ?st1 + length calls\<rparr>)"
    by (rule seq_hit_pass[OF rest m1])
  show "call_sequence cs cr (c # calls) st =
       (map (\<lambda>(opts, args). combined cr opts x args) (c # calls),
        st\<lparr>staticHelperCalls := staticHelperCalls st + 1,
           memoTable := (memoTable st)(k \<mapsto> Pass x),
           resultHelperCalls := resultHelperCalls st + length (c # calls)\<rparr>)"
    unfolding c call_sequence.simps step prod.case tail by simp
next
  assume "\<forall>(opts, args)\<in>set others. chunk_sequence_call k args \<and> \<not> cache_eligible (hd args)"
  then show "staticHelperCalls (snd (call_sequence cs cr others st))
         = staticHelperCalls st + length others"
    using seq_uncached by blast
next
  assume "\<forall>(opts, args)\<in>set others. chunk_sequence_call k args \<and> \<not> cache_eligible (hd args)"
    and "\<forall>(opts, args)\<in>set others. \<exists>y. cs (hd args) = Inr y"
  then show "fst (call_sequence cs cr others st)
              = map (\<lambda>(opts, args). combined cr opts (projr (cs (hd args))) args) others"
    using seq_uncached by blast
qed

theorem static_helper_once_witness:
  "fst (call_sequence strings_length echo
          [(Object 0 False [], [foo_bar True, Number 0]),
           (Object 0 False [], [foo_bar True, Number 1])] initial_state)
     = [Inr (Returned (Object 0 False [], 2, foo_bar True, [Number 0])),
        Inr (Returned (Object 0 False [], 2, foo_bar True, [Number 1]))]
   \<and> staticHelperCalls (snd (call_sequence strings_length echo
          [(Object 0 False [], [foo_bar True, Number 0]),
           (Object 0 False [], [foo_bar True, Number 1])] initial_state)) = 1
   \<and> staticHelperCalls (snd (call_sequence strings_length echo
          [(Object 0 False [], [foo_bar False, Number 0]),
           (Object 0 False [], [foo_bar_baz False, Number 0, Number 1])] initial_state)) = 2"
proof -
  let ?c = "(Object 0 False [], [foo_bar True, Number 0])"
  let ?calls = "[(Object 0 False [], [foo_bar True, Number 1])]"
  let ?others = "[(Object 0 False [], [foo_bar False, Number 0]),
           (Object 0 False [], [foo_bar_baz False, Number 0, Number 1])]"
  note t = static_helper_once[where c = ?c and calls = ?calls and k = 1 and st = initial_state
      and cs = strings_length and x = 2 and cr = echo and others = ?others]
  have h1: "(\<forall>(opts, args)\<in>set (?c # ?calls). chunk_sequence_call 1 args \<and> cache_eligible (hd args))
      \<and> memoTable initial_state 1 = None \<and> strings_length (hd (snd ?c)) = Inr 2"
    by (simp add: shape_defs test_defs foo_bar_baz_def)
  have h2: "\<forall>(opts, args)\<in>set ?others. chunk_sequence_call 1 args \<and> \<not> cache_eligible (hd args)"
    by (simp add: shape_defs test_defs foo_bar_baz_def)
  from t h1 have e1: "call_sequence strings_length echo (?c # ?calls) initial_state =
       (map (\<lambda>(opts, args). combined echo opts 2 args) (?c # ?calls),
        initial_state\<lparr>staticHelperCalls := staticHelperCalls initial_state + 1,
           memoTable := (memoTable initial_state)(1 \<mapsto> Pass 2),
           resultHelperCalls := resultHelperCalls initial_state + length (?c # ?calls)\<rparr>)"
    by blast
  from t h2 have e2: "staticHelperCalls (snd (call_sequence strings_length echo ?others initial_state))
         = staticHelperCalls initial_state + length ?others"
    by blast
  show ?thesis
    unfolding e1 e2 by (simp add: combined_def echo_def initial_state_def memoizedTagFunction_def)
qed

text \<open>
  C3, as stated, fails on the message: what later calls throw is
  \<^verbatim>\<open>new Error(exc.message || 'Failure')\<close>. When the static helper throws \<^verbatim>\<open>new Error()\<close>,
  whose message is empty, the first call re-throws that error and the second throws an
  error with the message \<^verbatim>\<open>'Failure'\<close>.
\<close>

theorem failure_cached_counterexample:
  "fst (call_sequence throws_empty_error echo
          [(Object 0 False [], [foo_bar True, Number 0]),
           (Object 0 False [], [foo_bar True, Number 1])] initial_state)
     = [Inl (Thrown (Object 9 False [(''message'', String [])])),
        Inl (NewError (String (str ''Failure'')))]
   \<and> get_prop (Object 9 False [(''message'', String [])]) ''message'' = Inr (String [])"
  by (simp add: call_defs test_defs throws_empty_error_def)

text \<open>
  C3, amended: if the static helper throws a truthy value on the first well-shaped call
  for a cache-eligible chunk-sequence identity, that call re-throws the value itself,
  and every later call with that identity throws a new error without invoking either
  helper again (the static helper has run once, the result helper never); the message
  of the new error is the message of the value thrown when that is not empty, and
  \<^verbatim>\<open>'Failure'\<close> otherwise.
\<close>

theorem failure_cached:
  assumes "\<forall>(opts, args)\<in>set (c # calls). chunk_sequence_call k args \<and> cache_eligible (hd args)"
    and "memoTable st k = None" and "cs (hd (snd c)) = Inl exc"
    and "truthy exc" and "get_prop exc ''message'' = Inr m"
  shows "call_sequence cs cr (c # calls) st =
       (Inl (Thrown exc) # map (\<lambda>c. Inl (NewError (failure_message m))) calls,
        st\<lparr>staticHelperCalls := staticHelperCalls st + 1,
           memoTable := (memoTable st)(k \<mapsto> Fail (failure_message m))\<rparr>)
     \<and> failure_message m = (if truthy m then m else String (str ''Failure''))"
proof
  obtain opts args where c: "c = (opts, args)" by (cases c)
  from assms c have h: "chunk_sequence_call k args" "cache_eligible (hd args)"
    and x: "cs (hd args) = Inl exc"
    and rest: "\<forall>(opts, args)\<in>set calls. chunk_sequence_call k args \<and> cache_eligible (hd args)"
    by auto
  let ?st1 = "st\<lparr>staticHelperCalls := staticHelperCalls st + 1,
         memoTable := (memoTable st)(k \<mapsto> Fail (failure_message m))\<rparr>"
  have step: "usingOptions cs cr opts args st = (Inl (Thrown exc), ?st1)"
    using call_miss_fail[where cs = cs and cr = cr and opts = opts, OF h assms(2) x assms(5)]
      assms(4) by simp
  have m1: "memoTable ?st1 k = Some (Fail (failure_message m))" by simp
  have tail: "call_sequence cs cr calls ?st1 =
     (map (\<lambda>c. Inl (NewError (failure_message m))) calls, ?st1)"
    by (rule seq_hit_fail[OF rest m1])
  show "call_sequence cs cr (c # calls) st =
       (Inl (Thrown exc) # map (\<lambda>c. Inl (NewError (failure_message m))) calls, ?st1)"
    unfolding c call_sequence.simps step prod.case tail by simp
next
  show "failure_message m = (if truthy m then m else String (str ''Failure''))"
    by (simp add: failure_message_def)
qed

theorem failure_cached_witness:
  "call_sequence throws_panic echo
          [(Object 0 False [], [foo_bar True, Number 0]),
           (Object 0 False [], [foo_bar True, Number 1]),
           (Object 0 False [], [foo_bar True, Number 2])] initial_state
     = ([Inl (Thrown (Object 9 False [(''message'', String (str ''Panic''))])),
         Inl (NewError (String (str ''Panic''))),
         Inl (NewError (String (str ''Panic'')))],
        initial_state\<lparr>staticHelperCalls := 1,
           memoTable := (memoTable initial_state)(1 \<mapsto> Fail (String (str ''Panic'')))\<rparr>)"
proof -
  let ?c = "(Object 0 False [], [foo_bar True, Number 0])"
  let ?calls = "[(Object 0 False [], [foo_bar True, Number 1]),
           (Object 0 False [], [foo_bar True, Number 2])]"
  let ?exc = "Object 9 False [(''message'', String (str ''Panic''))]"
  have h1: "\<forall>(opts, args)\<in>set (?c # ?calls). chunk_sequence_call 1 args \<and> cache_eligible (hd args)"
    by (simp add: shape_defs test_defs)
  have h2: "memoTable initial_state 1 = None" by (simp add: initial_state_def memoizedTagFunction_def)
  have h3: "throws_panic (hd (snd ?c)) = Inl ?exc" by (simp add: throws_panic_def)
  have h4: "truthy ?exc" by simp
  have h5: "get_prop ?exc ''message'' = Inr (String (str ''Panic''))" by simp
  have fm: "failure_message (String (str ''Panic'')) = String (str ''Panic'')"
    by (simp add: failure_message_def str_def)
  note t = failure_cached[where cs = throws_panic and cr = echo, OF h1 h2 h3 h4 h5]
  from t show ?thesis
    unfolding fm by (simp add: initial_state_def memoizedTagFunction_def)
qed

section \<open>Configuration\<close>

text \<open>
  C8. A call with exactly one argument that is not an array returns a new tag function
  bound to that argument and leaves the state, hence the function called and the memo
  table, as they were. Binding \<open>b\<close> after binding \<open>a\<close> changes nothing for a call made
  through the function bound to \<open>a\<close>: its outcome and the state after it are those of the
  same call without the binding of \<open>b\<close>, and the combiner receives \<open>a\<close>. The functions
  bound to \<open>a\<close> and to \<open>b\<close> share the memo table: after a call through the first, a call
  through the second with the same cache-eligible chunk sequence finds the static
  state, and the static helper has run once.
\<close>

theorem configure_binds_options:
  "(\<not> isArray x \<longrightarrow> usingOptions cs cr base [x] st = (Inr (Configured x), st))
   \<and> (\<not> isArray a \<and> \<not> isArray b \<longrightarrow>
        call_sequence cs cr [(base, [a]), (base, [b]), (a, args)] st =
          (Inr (Configured a) # Inr (Configured b) # fst (call_sequence cs cr [(a, args)] st),
           snd (call_sequence cs cr [(a, args)] st)))
   \<and> (chunk_sequence_call k args \<and> staticStateFor cs (hd args) st = (Inr v, st1) \<longrightarrow>
        fst (usingOptions cs cr a args st) = combined cr a v args)
   \<and> (chunk_sequence_call k args \<and> cache_eligible (hd args)
        \<and> chunk_sequence_call k args' \<and> cache_eligible (hd args')
        \<and> memoTable st k = None \<and> cs (hd args) = Inr v \<longrightarrow>
        fst (call_sequence cs cr [(a, args), (b, args')] st)
          = [combined cr a v args, combined cr b v args']
        \<and> staticHelperCalls (snd (call_sequence cs cr [(a, args), (b, args')] st))
          = staticHelperCalls st + 1)"
proof (intro conjI impI)
  assume "\<not> isArray x"
  then show "usingOptions cs cr base [x] st = (Inr (Configured x), st)"
    by (simp add: usingOptions_def)
next
  assume "\<not> isArray a \<and> \<not> isArray b"
  then have "usingOptions cs cr base [a] st = (Inr (Configured a), st)"
    and "usingOptions cs cr base [b] st = (Inr (Configured b), st)"
    by (simp_all add: usingOptions_def)
  then show "call_sequence cs cr [(base, [a]), (base, [b]), (a, args)] st =
          (Inr (Configured a) # Inr (Configured b) # fst (call_sequence cs cr [(a, args)] st),
           snd (call_sequence cs cr [(a, args)] st))"
    by (simp add: split_beta)
next
  assume "chunk_sequence_call k args \<and> staticStateFor cs (hd args) st = (Inr v, st1)"
  then show "fst (usingOptions cs cr a args st) = combined cr a v args"
    by (simp add: call_unfold[of k args])
next
  assume a: "chunk_sequence_call k args \<and> cache_eligible (hd args)
        \<and> chunk_sequence_call k args' \<and> cache_eligible (hd args')
        \<and> memoTable st k = None \<and> cs (hd args) = Inr v"
  let ?st1 = "st\<lparr>staticHelperCalls := staticHelperCalls st + 1,
         memoTable := (memoTable st)(k \<mapsto> Pass v),
         resultHelperCalls := resultHelperCalls st + 1\<rparr>"
  have step: "usingOptions cs cr a args st = (combined cr a v args, ?st1)"
    using a by (intro call_miss_pass[where k = k]) simp_all
  have m1: "memoTable ?st1 k = Some (Pass v)" by simp
  have step2: "usingOptions cs cr b args' ?st1
      = (combined cr b v args', ?st1\<lparr>resultHelperCalls := resultHelperCalls ?st1 + 1\<rparr>)"
    using a m1 by (intro call_hit_pass[where k = k]) simp_all
  have seq: "call_sequence cs cr [(a, args), (b, args')] st
      = ([combined cr a v args, combined cr b v args'],
         ?st1\<lparr>resultHelperCalls := resultHelperCalls ?st1 + 1\<rparr>)"
    unfolding call_sequence.simps step prod.case step2 by simp
  show "fst (call_sequence cs cr [(a, args), (b, args')] st)
          = [combined cr a v args, combined cr b v args']"
    unfolding seq by simp
  show "staticHelperCalls (snd (call_sequence cs cr [(a, args), (b, args')] st))
          = staticHelperCalls st + 1"
    unfolding seq by simp
qed

theorem configure_binds_options_witness:
  "usingOptions strings_length echo (Object 0 False []) [Object 5 False [(''i'', Number 0)]]
      initial_state = (Inr (Configured (Object 5 False [(''i'', Number 0)])), initial_state)
   \<and> fst (call_sequence strings_length echo
        [(Object 0 False [], [Object 5 False [(''i'', Number 0)]]),
         (Object 0 False [], [Object 6 False [(''i'', Number 1)]]),
         (Object 5 False [(''i'', Number 0)], [foo_bar True, Number 7])] initial_state)
      = [Inr (Configured (Object 5 False [(''i'', Number 0)])),
         Inr (Configured (Object 6 False [(''i'', Number 1)])),
         Inr (Returned (Object 5 False [(''i'', Number 0)], 2, foo_bar True, [Number 7]))]
   \<and> fst (call_sequence strings_length echo
        [(Object 5 False [(''i'', Number 0)], [foo_bar True, Number 7]),
         (Object 6 False [(''i'', Number 1)], [foo_bar True, Number 8])] initial_state)
      = [Inr (Returned (Object 5 False [(''i'', Number 0)], 2, foo_bar True, [Number 7])),
         Inr (Returned (Object 6 False [(''i'', Number 1)], 2, foo_bar True, [Number 8]))]
   \<and> staticHelperCalls (snd (call_sequence strings_length echo
        [(Object 5 False [(''i'', Number 0)], [foo_bar True, Number 7]),
         (Object 6 False [(''i'', Number 1)], [foo_bar True, Number 8])] initial_state)) = 1"
proof -
  let ?A = "Object 5 False [(''i'', Number 0)]"
  let ?B = "Object 6 False [(''i'', Number 1)]"
  let ?args = "[foo_bar True, Number 7]"
  let ?args' = "[foo_bar True, Number 8]"
  note t = configure_binds_options[where x = ?A and cs = strings_length and cr = echo
      and base = "Object 0 False []" and st = initial_state and a = ?A and b = ?B
      and args = ?args and k = 1 and v = 2 and args' = ?args'
      and ?st1.0 = "initial_state\<lparr>staticHelperCalls := 1, memoTable := (memoTable initial_state)(1 \<mapsto> Pass 2)\<rparr>"]
  have na: "\<not> isArray ?A" and nab: "\<not> isArray ?A \<and> \<not> isArray ?B" by simp_all
  have h4: "chunk_sequence_call 1 ?args \<and> cache_eligible (hd ?args)
        \<and> chunk_sequence_call 1 ?args' \<and> cache_eligible (hd ?args')
        \<and> memoTable initial_state 1 = None \<and> strings_length (hd ?args) = Inr 2"
    by (simp add: shape_defs test_defs)
  from t na have c1: "usingOptions strings_length echo (Object 0 False []) [?A] initial_state
      = (Inr (Configured ?A), initial_state)" by blast
  from t nab have c2: "call_sequence strings_length echo
        [(Object 0 False [], [?A]), (Object 0 False [], [?B]), (?A, ?args)] initial_state =
          (Inr (Configured ?A) # Inr (Configured ?B)
             # fst (call_sequence strings_length echo [(?A, ?args)] initial_state),
           snd (call_sequence strings_length echo [(?A, ?args)] initial_state))" by blast
  from t h4 have c4: "fst (call_sequence strings_length echo [(?A, ?args), (?B, ?args')] initial_state)
          = [combined echo ?A 2 ?args, combined echo ?B 2 ?args']
        \<and> staticHelperCalls (snd (call_sequence strings_length echo
              [(?A, ?args), (?B, ?args')] initial_state))
          = staticHelperCalls initial_state + 1" by blast
  have single: "fst (call_sequence strings_length echo [(?A, ?args)] initial_state)
      = [Inr (Returned (?A, 2, foo_bar True, [Number 7]))]"
    by (simp add: call_defs test_defs)
  show ?thesis
    unfolding c1 c2 using c4 single
    by (simp add: combined_def echo_def initial_state_def memoizedTagFunction_def)
qed

end
